theory Spec2Isabelle
  imports Main
begin

section \<open>JavaScript strings and numbers\<close>

text \<open>
  A JavaScript string is a sequence of UTF-16 code units: \<^verbatim>\<open>length\<close>, \<^verbatim>\<open>slice\<close>,
  \<^verbatim>\<open>split\<close>, \<^verbatim>\<open>startsWith\<close> and the regular expressions of handler.js (none carries
  the \<^verbatim>\<open>u\<close> flag) all count code units. A string is therefore a list of code units,
  each a natural number; \<open>str\<close> turns an ASCII literal into such a list.
\<close>

type_synonym jsstring = "nat list"

definition str :: "string \<Rightarrow> jsstring" where
  "str s = map of_char s"

text \<open>
  \<^verbatim>\<open>String.prototype.trim\<close> removes WhiteSpace and LineTerminator code points from both
  ends: TAB, LF, VT, FF, CR, SP, NBSP, U+1680, U+2000..U+200A, U+2028, U+2029, U+202F,
  U+205F, U+3000 and U+FEFF. All of them are single code units.
\<close>

definition isWhiteSpace :: "nat \<Rightarrow> bool" where
  "isWhiteSpace c \<longleftrightarrow>
     c = 9 \<or> c = 10 \<or> c = 11 \<or> c = 12 \<or> c = 13 \<or> c = 32 \<or> c = 160 \<or> c = 5760 \<or>
     (8192 \<le> c \<and> c \<le> 8202) \<or> c = 8232 \<or> c = 8233 \<or> c = 8239 \<or> c = 8287 \<or>
     c = 12288 \<or> c = 65279"

definition trimStart :: "jsstring \<Rightarrow> jsstring" where
  "trimStart s = dropWhile isWhiteSpace s"

definition trimEnd :: "jsstring \<Rightarrow> jsstring" where
  "trimEnd s = rev (dropWhile isWhiteSpace (rev s))"

definition trim :: "jsstring \<Rightarrow> jsstring" where
  "trim s = trimEnd (trimStart s)"

fun startsWith :: "jsstring \<Rightarrow> jsstring \<Rightarrow> bool" where
  "startsWith s [] = True"
| "startsWith [] (p # ps) = False"
| "startsWith (c # cs) (p # ps) = (c = p \<and> startsWith cs ps)"

text \<open>\<^verbatim>\<open>s.split(d)\<close> for a one-unit separator: never the empty array, \<^verbatim>\<open>"".split(d)\<close> is \<^verbatim>\<open>[""]\<close>.\<close>

fun split :: "nat \<Rightarrow> jsstring \<Rightarrow> jsstring list" where
  "split d [] = [[]]"
| "split d (c # cs) =
     (if c = d then [] # split d cs
      else (case split d cs of [] \<Rightarrow> [[c]] | x # xs \<Rightarrow> (c # x) # xs))"

fun join :: "jsstring \<Rightarrow> jsstring list \<Rightarrow> jsstring" where
  "join sep [] = []"
| "join sep [x] = x"
| "join sep (x # y # ys) = x @ sep @ join sep (y # ys)"

text \<open>
  The numbers handler.js computes with are lengths, literals and results of \<^verbatim>\<open>parseInt\<close>:
  doubles that are NaN, an infinity, or an integer (\<open>Fin 0\<close> also stands for \<^verbatim>\<open>-0\<close>, which
  every operation below treats as 0).
\<close>

datatype jsnum = NaN | Fin int | PosInf | NegInf

text \<open>\<^verbatim>\<open>n > m\<close> for a length \<open>n\<close>: false when \<open>m\<close> is NaN.\<close>

fun lengthGt :: "nat \<Rightarrow> jsnum \<Rightarrow> bool" where
  "lengthGt n NaN = False"
| "lengthGt n (Fin m) = (m < int n)"
| "lengthGt n PosInf = False"
| "lengthGt n NegInf = True"

fun neg :: "jsnum \<Rightarrow> jsnum" where
  "neg NaN = NaN"
| "neg (Fin m) = Fin (- m)"
| "neg PosInf = NegInf"
| "neg NegInf = PosInf"

text \<open>
  \<^verbatim>\<open>s.slice(start)\<close>: the start is converted to an integer or an infinity (NaN and \<^verbatim>\<open>-0\<close>
  to 0); a negative start counts from the end, clamped at 0; a non-negative one is
  clamped at the length.
\<close>

fun slice :: "jsstring \<Rightarrow> jsnum \<Rightarrow> jsstring" where
  "slice s NaN = s"
| "slice s (Fin k) =
     (let len = int (length s);
          from = (if k < 0 then max (len + k) 0 else min k len)
      in drop (nat from) s)"
| "slice s PosInf = []"
| "slice s NegInf = s"

section \<open>Transcript extraction and noise filtering\<close>

definition isLineTerminator :: "nat \<Rightarrow> bool" where
  "isLineTerminator c \<longleftrightarrow> c = 10 \<or> c = 13 \<or> c = 8232 \<or> c = 8233"

text \<open>
  \<open>dotStarThen p s\<close>: the regular expression \<^verbatim>\<open>.*p\<close> matches at the start of \<open>s\<close>, for a
  literal \<open>p\<close>: some run of code units that are not line terminators, then \<open>p\<close>.
\<close>

fun dotStarThen :: "jsstring \<Rightarrow> jsstring \<Rightarrow> bool" where
  "dotStarThen p [] = startsWith [] p"
| "dotStarThen p (c # cs) =
     (startsWith (c # cs) p \<or> (\<not> isLineTerminator c \<and> dotStarThen p cs))"

text \<open>
  \<^verbatim>\<open>NOISE_PATTERNS\<close>, each regular expression as the predicate it tests. None has the \<^verbatim>\<open>m\<close>
  flag: \<^verbatim>\<open>^\<close> is the start and \<^verbatim>\<open>$\<close> the end of the whole string.
\<close>

definition NOISE_PATTERNS :: "(jsstring \<Rightarrow> bool) list" where
  "NOISE_PATTERNS =
     [\<lambda>t. t = str ''HEARTBEAT_OK'',
      \<lambda>t. t = str ''NO_REPLY'',
      \<lambda>t. startsWith t (str ''Read HEARTBEAT.md''),
      \<lambda>t. startsWith t (str ''System: ['') \<and> dotStarThen (str ''] Exec finished'') (drop 9 t),
      \<lambda>t. startsWith t (str ''System: ['') \<and> dotStarThen (str ''] Exec started'') (drop 9 t),
      \<lambda>t. startsWith t (str ''An async command you ran earlier''),
      \<lambda>t. startsWith t (str ''Approval required (id'')]"

definition isNoise :: "jsstring \<Rightarrow> bool" where
  "isNoise text =
     (let trimmed = trim text in
      if trimmed = [] then True
      else if startsWith trimmed (str ''/'') then True
      else list_ex (\<lambda>pat. pat trimmed) NOISE_PATTERNS)"

text \<open>
  One line of the session file after \<^verbatim>\<open>JSON.parse\<close>, as far as \<^verbatim>\<open>buildCleanTranscript\<close>
  looks at it.

  The \<^verbatim>\<open>text\<close> field of a block is any JSON value. The code tests its truthiness and
  \<^verbatim>\<open>join\<close> converts it to a string:
  \<^item> \<open>Falsy\<close>: the field is absent, \<^verbatim>\<open>null\<close>, \<^verbatim>\<open>false\<close>, \<^verbatim>\<open>0\<close> or the empty string;
  \<^item> \<open>StringText s\<close>: the string \<open>s\<close> (falsy when empty);
  \<^item> \<open>Stringified s\<close>: a truthy value that is not a string (a number, \<^verbatim>\<open>true\<close>, an array,
    an object), which the runtime's \<^verbatim>\<open>ToString\<close> renders as \<open>s\<close> (\<^verbatim>\<open>5\<close> as \<^verbatim>\<open>"5"\<close>, \<^verbatim>\<open>[]\<close> as
    the empty string);
  \<^item> \<open>Unconvertible\<close>: a truthy value on which \<^verbatim>\<open>ToString\<close> raises a TypeError (an object
    with a key \<^verbatim>\<open>toString\<close>, alone or inside an array).

  A block of a content array is \<open>None\<close> when the array element is not an object (\<^verbatim>\<open>null\<close>
  or a primitive: it has no \<^verbatim>\<open>type\<close>); \<open>btype\<close> is its \<^verbatim>\<open>type\<close> field when that is a string.
  A message's \<open>role\<close> is \<open>None\<close> when the field is absent or not a string. \<open>tool_calls\<close> is
  the truthiness of the field.
\<close>

datatype textField = Falsy | StringText jsstring | Stringified jsstring | Unconvertible

datatype block = Block (btype: "jsstring option") (btext: textField)

datatype content = Str jsstring | Blocks "block option list" | Other

record message =
  role :: "jsstring option"
  content :: content
  tool_calls :: bool

text \<open>
  \<open>Unparsable\<close>: \<^verbatim>\<open>JSON.parse\<close> throws. \<open>JsonNull\<close>: the line is the JSON value \<^verbatim>\<open>null\<close>.
  \<open>Entry t m\<close>: any other value, with its \<^verbatim>\<open>type\<close> field (when a string) and its
  \<^verbatim>\<open>message\<close> field (when truthy).
\<close>

datatype entry = Unparsable | JsonNull | Entry (etype: "jsstring option") (emessage: "message option")

text \<open>
  \<open>TypeError\<close>: a TypeError of the runtime. \<open>FormatError\<close>: what the \<^verbatim>\<open>catch\<close> block of
  \<^verbatim>\<open>llmCall\<close> raises while it formats the value it caught.
\<close>

datatype error = TypeError | FormatError

fun truthy :: "textField \<Rightarrow> bool" where
  "truthy Falsy = False"
| "truthy (StringText s) = (s \<noteq> [])"
| "truthy (Stringified s) = True"
| "truthy Unconvertible = True"

text \<open>The filter \<^verbatim>\<open>c && c.type === "text" && c.text\<close>.\<close>

fun keepBlock :: "block option \<Rightarrow> bool" where
  "keepBlock None = False"
| "keepBlock (Some (Block ty tx)) = (ty = Some (str ''text'') \<and> truthy tx)"

text \<open>
  What \<^verbatim>\<open>join\<close> makes of the \<^verbatim>\<open>text\<close> of a block that passed the filter (the other cases
  are never reached).
\<close>

fun textString :: "block option \<Rightarrow> error + jsstring" where
  "textString (Some (Block ty (StringText s))) = Inr s"
| "textString (Some (Block ty (Stringified s))) = Inr s"
| "textString (Some (Block ty Unconvertible)) = Inl TypeError"
| "textString b = Inr []"

text \<open>The conversions of \<^verbatim>\<open>join\<close>, left to right: the strings, or the first exception.\<close>

fun strings :: "(error + jsstring) list \<Rightarrow> error + jsstring list" where
  "strings [] = Inr []"
| "strings (Inl e # rs) = Inl e"
| "strings (Inr s # rs) = (case strings rs of Inl e \<Rightarrow> Inl e | Inr ss \<Rightarrow> Inr (s # ss))"

fun extractText :: "content \<Rightarrow> error + jsstring" where
  "extractText (Str s) = Inr s"
| "extractText (Blocks cs) =
     (case strings (map textString (filter keepBlock cs)) of
        Inl e \<Rightarrow> Inl e
      | Inr ss \<Rightarrow> Inr (join [10] ss))"
| "extractText Other = Inr []"

text \<open>The tool marker is U+1F6E0 U+FE0F: the surrogate pair D83D DEE0, then FE0F.\<close>

definition toolMark :: jsstring where
  "toolMark = [55357, 57056, 65039]"

definition keepLine :: "jsstring \<Rightarrow> bool" where
  "keepLine l =
     (let t = trim l in
      if startsWith t (toolMark @ str '' Exec:'') then False
      else if startsWith t (toolMark @ str '' Read:'') then False
      else if startsWith t (str ''System: ['') then False
      else True)"

definition cleanText :: "jsstring \<Rightarrow> jsstring" where
  "cleanText text = trim (join [10] (filter keepLine (split 10 text)))"

text \<open>
  \<^verbatim>\<open>toUpperCase\<close> and \<^verbatim>\<open>toLowerCase\<close> follow the Unicode case tables of the runtime. On a
  string of ASCII units they change the 26 letters only; on any other string the
  runtime's mapping is a parameter of the model.
\<close>

definition isAscii :: "jsstring \<Rightarrow> bool" where
  "isAscii s = list_all (\<lambda>c. c < 128) s"

definition upperUnit :: "nat \<Rightarrow> nat" where
  "upperUnit c = (if 97 \<le> c \<and> c \<le> 122 then c - 32 else c)"

definition lowerUnit :: "nat \<Rightarrow> nat" where
  "lowerUnit c = (if 65 \<le> c \<and> c \<le> 90 then c + 32 else c)"

definition toUpperCase :: "(jsstring \<Rightarrow> jsstring) \<Rightarrow> jsstring \<Rightarrow> jsstring" where
  "toUpperCase U s = (if isAscii s then map upperUnit s else U s)"

definition toLowerCase :: "(jsstring \<Rightarrow> jsstring) \<Rightarrow> jsstring \<Rightarrow> jsstring" where
  "toLowerCase L s = (if isAscii s then map lowerUnit s else L s)"

text \<open>
  The body of the loop for one line: \<open>Inr None\<close> is \<^verbatim>\<open>continue\<close>, \<open>Inr (Some l)\<close> pushes
  \<open>l\<close>, \<open>Inl TypeError\<close> is the exception of \<^verbatim>\<open>entry.type\<close> on \<^verbatim>\<open>null\<close>, of \<^verbatim>\<open>join\<close> on a
  text it cannot convert, or of \<^verbatim>\<open>role.toUpperCase()\<close> on a role that is not a string;
  none is caught inside \<^verbatim>\<open>buildCleanTranscript\<close>.
\<close>

definition labelOf :: "(jsstring \<Rightarrow> jsstring) \<Rightarrow> jsstring option \<Rightarrow> error + jsstring" where
  "labelOf U r =
     (if r = Some (str ''user'') then Inr (str ''USER'')
      else if r = Some (str ''assistant'') then Inr (str ''ASSISTANT'')
      else (case r of None \<Rightarrow> Inl TypeError | Some x \<Rightarrow> Inr (toUpperCase U x)))"

definition cleanLine :: "(jsstring \<Rightarrow> jsstring) \<Rightarrow> message \<Rightarrow> error + jsstring option" where
  "cleanLine U msg =
     (if role msg = Some (str ''tool'') then Inr None
      else if role msg = Some (str ''system'') then Inr None
      else
        (case extractText (content msg) of
           Inl e \<Rightarrow> Inl e
         | Inr text \<Rightarrow>
             if text = [] then Inr None
             else if role msg = Some (str ''assistant'') \<and> tool_calls msg \<and> trim text = []
             then Inr None
             else if isNoise text then Inr None
             else
               let cleanedText = cleanText text in
               if cleanedText = [] then Inr None
               else (case labelOf U (role msg) of
                       Inl e \<Rightarrow> Inl e
                     | Inr label \<Rightarrow> Inr (Some (label @ str '': '' @ cleanedText)))))"

fun processEntry :: "(jsstring \<Rightarrow> jsstring) \<Rightarrow> entry \<Rightarrow> error + jsstring option" where
  "processEntry U Unparsable = Inr None"
| "processEntry U JsonNull = Inl TypeError"
| "processEntry U (Entry ty m) =
     (if ty \<noteq> Some (str ''message'') then Inr None
      else (case m of None \<Rightarrow> Inr None | Some msg \<Rightarrow> cleanLine U msg))"

text \<open>
  The loop over the lines: the transcript array, or the first exception. (The lines are
  those of the file read; a rejection of \<^verbatim>\<open>fs.readFile\<close> comes before any of this.)
\<close>

fun collect :: "(jsstring \<Rightarrow> jsstring) \<Rightarrow> entry list \<Rightarrow> error + jsstring list" where
  "collect U [] = Inr []"
| "collect U (e # es) =
     (case processEntry U e of
        Inl x \<Rightarrow> Inl x
      | Inr r \<Rightarrow>
          (case collect U es of
             Inl x \<Rightarrow> Inl x
           | Inr ls \<Rightarrow> Inr ((case r of None \<Rightarrow> [] | Some l \<Rightarrow> [l]) @ ls)))"

definition marker :: jsstring where
  "marker = str ''...(earlier conversation truncated)...'' @ [10, 10]"

definition truncateTail :: "jsstring \<Rightarrow> jsnum \<Rightarrow> jsstring" where
  "truncateTail joined maxChars =
     (if lengthGt (length joined) maxChars then marker @ slice joined (neg maxChars)
      else joined)"

definition joined :: "jsstring list \<Rightarrow> jsstring" where
  "joined transcript = join [10, 10] transcript"

definition buildCleanTranscript ::
  "(jsstring \<Rightarrow> jsstring) \<Rightarrow> entry list \<Rightarrow> jsnum \<Rightarrow> error + jsstring" where
  "buildCleanTranscript U lines maxChars =
     (case collect U lines of
        Inl x \<Rightarrow> Inl x
      | Inr transcript \<Rightarrow> Inr (truncateTail (joined transcript) maxChars))"

section \<open>The generation client\<close>

fun indexOf :: "nat \<Rightarrow> jsstring \<Rightarrow> nat option" where
  "indexOf d [] = None"
| "indexOf d (c # cs) = (if c = d then Some 0 else map_option Suc (indexOf d cs))"

definition splitProviderModel :: "jsstring \<Rightarrow> jsstring option \<times> jsstring" where
  "splitProviderModel modelStr =
     (case indexOf 47 modelStr of
        None \<Rightarrow> (None, modelStr)
      | Some idx \<Rightarrow> (Some (take idx modelStr), drop (idx + 1) modelStr))"

text \<open>\<^verbatim>\<open>timeoutMs || 60_000\<close>: NaN and 0 are falsy, an infinity is not.\<close>

fun orDefaultTimeout :: "jsnum \<Rightarrow> jsnum" where
  "orDefaultTimeout NaN = Fin 60000"
| "orDefaultTimeout (Fin n) = (if n = 0 then Fin 60000 else Fin n)"
| "orDefaultTimeout PosInf = PosInf"
| "orDefaultTimeout NegInf = NegInf"

text \<open>
  A value raised inside the \<^verbatim>\<open>try\<close> block, as the \<^verbatim>\<open>catch\<close> block meets it in
  \<^verbatim>\<open>err instanceof Error ? err.message : String(err)\<close>: \<open>Printable\<close> when that expression has
  a value (an Error, a primitive, an object with a string conversion), \<open>Unprintable\<close> when
  it raises itself (a value without a string conversion such as \<^verbatim>\<open>Object.create(null)\<close>, or
  an Error whose \<^verbatim>\<open>message\<close> getter raises). Nothing encloses the \<^verbatim>\<open>catch\<close> block, so what it
  raises leaves \<^verbatim>\<open>llmCall\<close>.
\<close>

datatype raised = Printable | Unprintable

text \<open>
  What the outside world does in one pass of the loop of \<^verbatim>\<open>llmCall\<close>:
  \<^item> \<open>SetupRaises v\<close>: resolving the agent directories or \<^verbatim>\<open>fs.mkdtemp\<close> raises \<open>v\<close>, so no
    temporary directory exists;
  \<^item> \<open>AgentRaises v\<close>: the directory is made and \<^verbatim>\<open>_runEmbeddedPiAgent\<close> raises \<open>v\<close> (a
    timeout included);
  \<^item> \<open>AgentReturns r\<close>: the agent returns. Reading \<^verbatim>\<open>result.payloads?.[0]?.text?.trim()\<close>
    raises a TypeError (an Error, so printable) on \<open>Malformed\<close> (the result is \<^verbatim>\<open>null\<close> or
    \<^verbatim>\<open>undefined\<close>, or the text is not a string), is \<^verbatim>\<open>undefined\<close> on \<open>NoText\<close>, and is the
    trimmed text on \<open>Text t\<close>.
\<close>

datatype reply = Malformed | NoText | Text jsstring

datatype outcome = SetupRaises raised | AgentRaises raised | AgentReturns reply

text \<open>
  What \<^verbatim>\<open>llmCall\<close> does to the outside world, in order. \<open>MkTemp k\<close> and \<open>RmTemp k\<close> are
  \<^verbatim>\<open>fs.mkdtemp\<close> and \<^verbatim>\<open>fs.rm\<close> on the temporary directory of pass \<open>k\<close>; the rejection of
  \<^verbatim>\<open>fs.rm\<close> is swallowed by its \<^verbatim>\<open>.catch\<close>, so \<open>RmTemp\<close> never raises.
\<close>

datatype event =
    MkTemp nat
  | RunAgent nat "jsstring option" jsstring jsnum
  | RmTemp nat
  | LogSucceeded jsstring
  | WarnEmpty jsstring
  | WarnFailed jsstring

fun isWarn :: "event \<Rightarrow> bool" where
  "isWarn (WarnEmpty m) = True"
| "isWarn (WarnFailed m) = True"
| "isWarn e = False"

definition runEvent :: "nat \<Rightarrow> jsstring \<Rightarrow> jsnum \<Rightarrow> event" where
  "runEvent k m timeoutMs =
     (case splitProviderModel m of (provider, model) \<Rightarrow>
        RunAgent k provider model (orDefaultTimeout timeoutMs))"

text \<open>
  The loop \<^verbatim>\<open>for (const m of models)\<close>, from pass \<open>k\<close> on: the events, and either the
  value returned (\<open>Inr None\<close> is \<^verbatim>\<open>null\<close>) or the exception that leaves \<^verbatim>\<open>llmCall\<close>.
  \<open>run k m\<close> is what the outside world does in pass \<open>k\<close>.
\<close>

fun tryModels ::
  "(nat \<Rightarrow> jsstring \<Rightarrow> outcome) \<Rightarrow> jsnum \<Rightarrow> nat \<Rightarrow> jsstring list \<Rightarrow>
     event list \<times> (error + jsstring option)" where
  "tryModels run timeoutMs k [] = ([], Inr None)"
| "tryModels run timeoutMs k (m # ms) =
     (let rest = tryModels run timeoutMs (Suc k) ms in
      case run k m of
        SetupRaises Printable \<Rightarrow> (WarnFailed m # fst rest, snd rest)
      | SetupRaises Unprintable \<Rightarrow> ([], Inl FormatError)
      | AgentRaises Printable \<Rightarrow>
          (MkTemp k # runEvent k m timeoutMs # WarnFailed m # fst rest, snd rest)
      | AgentRaises Unprintable \<Rightarrow> ([MkTemp k, runEvent k m timeoutMs], Inl FormatError)
      | AgentReturns Malformed \<Rightarrow>
          (MkTemp k # runEvent k m timeoutMs # RmTemp k # WarnFailed m # fst rest, snd rest)
      | AgentReturns NoText \<Rightarrow>
          (MkTemp k # runEvent k m timeoutMs # RmTemp k # WarnEmpty m # fst rest, snd rest)
      | AgentReturns (Text t) \<Rightarrow>
          (if trim t \<noteq> []
           then ([MkTemp k, runEvent k m timeoutMs, RmTemp k, LogSucceeded m], Inr (Some (trim t)))
           else (MkTemp k # runEvent k m timeoutMs # RmTemp k # WarnEmpty m # fst rest, snd rest)))"

definition llmCall ::
  "(nat \<Rightarrow> jsstring \<Rightarrow> outcome) \<Rightarrow> jsstring \<Rightarrow> jsstring list \<Rightarrow> jsnum \<Rightarrow>
     event list \<times> (error + jsstring option)" where
  "llmCall run modelStr fallbackModels timeoutMs =
     tryModels run timeoutMs 0 (modelStr # fallbackModels)"

section \<open>The handler: configuration\<close>

text \<open>
  The \<^verbatim>\<open>env\<close> entries of the hook: each absent or a string, as the hook's documentation
  gives them.
\<close>

record env =
  REFLECTOR_SUMMARY_MODEL :: "jsstring option"
  REFLECTOR_SLUG_MODEL :: "jsstring option"
  REFLECTOR_FALLBACK_MODELS :: "jsstring option"
  REFLECTOR_MAX_CHARS :: "jsstring option"
  REFLECTOR_TIMEOUT_MS :: "jsstring option"

text \<open>\<^verbatim>\<open>v || d\<close> for a string or \<^verbatim>\<open>undefined\<close>: the empty string is falsy.\<close>

fun orElse :: "jsstring option \<Rightarrow> jsstring \<Rightarrow> jsstring" where
  "orElse None d = d"
| "orElse (Some v) d = (if v = [] then d else v)"

definition isDigit :: "nat \<Rightarrow> bool" where
  "isDigit c \<longleftrightarrow> 48 \<le> c \<and> c \<le> 57"

definition digitsValue :: "jsstring \<Rightarrow> int" where
  "digitsValue ds = foldl (\<lambda>a c. 10 * a + int (c - 48)) 0 ds"

text \<open>
  \<^verbatim>\<open>parseInt(s, 10)\<close>: leading white space, a sign, then the longest run of digits. The
  integer read is turned into a double: exactly when its magnitude is at most
  \<open>2 ^ 53\<close>; beyond that the runtime rounds it (\<^verbatim>\<open>"9007199254740993"\<close> gives
  9007199254740992, and it may ignore the digits after the 20th) or gives an infinity.
  That conversion of the runtime is the parameter \<open>R\<close>.
\<close>

definition parseInt :: "(int \<Rightarrow> jsnum) \<Rightarrow> jsstring \<Rightarrow> jsnum" where
  "parseInt R s =
     (let t = trimStart s;
          sign = (case t of [] \<Rightarrow> 1 | c # cs \<Rightarrow> if c = 45 then - 1 else 1);
          r = (case t of [] \<Rightarrow> [] | c # cs \<Rightarrow> if c = 45 \<or> c = 43 then cs else t);
          z = takeWhile isDigit r;
          n = sign * digitsValue z
      in if z = [] then NaN
         else if - 9007199254740992 \<le> n \<and> n \<le> 9007199254740992 then Fin n
         else R n)"

definition summaryModel :: "env \<Rightarrow> jsstring" where
  "summaryModel e = orElse (REFLECTOR_SUMMARY_MODEL e) (str ''google/gemini-2.5-flash'')"

definition slugModel :: "env \<Rightarrow> jsstring" where
  "slugModel e = orElse (REFLECTOR_SLUG_MODEL e) (str ''google/gemini-2.5-flash-lite'')"

definition fallbackModels :: "env \<Rightarrow> jsstring list" where
  "fallbackModels e =
     filter (\<lambda>s. s \<noteq> []) (map trim (split 44 (orElse (REFLECTOR_FALLBACK_MODELS e) [])))"

definition maxTranscriptChars :: "(int \<Rightarrow> jsnum) \<Rightarrow> env \<Rightarrow> jsnum" where
  "maxTranscriptChars R e = parseInt R (orElse (REFLECTOR_MAX_CHARS e) (str ''80000''))"

definition timeoutMs :: "(int \<Rightarrow> jsnum) \<Rightarrow> env \<Rightarrow> jsnum" where
  "timeoutMs R e = parseInt R (orElse (REFLECTOR_TIMEOUT_MS e) (str ''60000''))"

text \<open>
  The two calls of \<^verbatim>\<open>llmCall\<close> in the handler, with the arguments the handler gives them.
\<close>

definition summaryCall ::
  "(int \<Rightarrow> jsnum) \<Rightarrow> (nat \<Rightarrow> jsstring \<Rightarrow> outcome) \<Rightarrow> env \<Rightarrow>
     event list \<times> (error + jsstring option)" where
  "summaryCall R run e = llmCall run (summaryModel e) (fallbackModels e) (timeoutMs R e)"

definition slugCall ::
  "(nat \<Rightarrow> jsstring \<Rightarrow> outcome) \<Rightarrow> env \<Rightarrow> event list \<times> (error + jsstring option)" where
  "slugCall run e = llmCall run (slugModel e) (summaryModel e # fallbackModels e) (Fin 30000)"

text \<open>
  Steps 2 and 3 of the handler: the summary call, and the slug call when the summary call
  returned a text. When the summary call returns \<^verbatim>\<open>null\<close> the handler returns, and when it
  raises the enclosing \<^verbatim>\<open>try\<close> logs the error: in both cases no slug call is made. The
  slug prompt holds the summary, so the outside world of the slug call depends on it.
\<close>

definition summaryThenSlug ::
  "(int \<Rightarrow> jsnum) \<Rightarrow> (nat \<Rightarrow> jsstring \<Rightarrow> outcome) \<Rightarrow> (jsstring \<Rightarrow> nat \<Rightarrow> jsstring \<Rightarrow> outcome) \<Rightarrow> env \<Rightarrow>
     (event list \<times> (error + jsstring option)) \<times> (event list \<times> (error + jsstring option)) option" where
  "summaryThenSlug R runSummary runSlug e =
     (case snd (summaryCall R runSummary e) of
        Inr (Some summary) \<Rightarrow> (summaryCall R runSummary e, Some (slugCall (runSlug summary) e))
      | other \<Rightarrow> (summaryCall R runSummary e, None))"

text \<open>What a call hands to the agent: the models tried, in order, and the timeout of each run.\<close>

fun agentRuns :: "event list \<Rightarrow> (jsstring option \<times> jsstring \<times> jsnum) list" where
  "agentRuns [] = []"
| "agentRuns (RunAgent k p m t # es) = (p, m, t) # agentRuns es"
| "agentRuns (e # es) = agentRuns es"

section \<open>The handler: slug clean-up\<close>

text \<open>\<^verbatim>\<open>.replace(/```/g, "")\<close>: the matches are taken left to right and do not overlap.\<close>

fun stripFences :: "jsstring \<Rightarrow> jsstring" where
  "stripFences (a # b # c # cs) =
     (if a = 96 \<and> b = 96 \<and> c = 96 then stripFences cs else a # stripFences (b # c # cs))"
| "stripFences cs = cs"

definition slugUnit :: "nat \<Rightarrow> bool" where
  "slugUnit c \<longleftrightarrow> (97 \<le> c \<and> c \<le> 122) \<or> (48 \<le> c \<and> c \<le> 57) \<or> c = 45"

text \<open>\<^verbatim>\<open>.replace(/[^a-z0-9-]/g, "-")\<close>\<close>

definition replaceOutside :: "jsstring \<Rightarrow> jsstring" where
  "replaceOutside s = map (\<lambda>c. if slugUnit c then c else 45) s"

text \<open>\<^verbatim>\<open>.replace(/-+/g, "-")\<close>\<close>

fun collapseHyphens :: "jsstring \<Rightarrow> jsstring" where
  "collapseHyphens (a # b # cs) =
     (if a = 45 \<and> b = 45 then collapseHyphens (b # cs) else a # collapseHyphens (b # cs))"
| "collapseHyphens cs = cs"

text \<open>
  \<^verbatim>\<open>.replace(/^-|-$/g, "")\<close>: one hyphen at the start, and one at the end of what follows it.
\<close>

definition trimHyphens :: "jsstring \<Rightarrow> jsstring" where
  "trimHyphens s =
     (let s1 = (case s of [] \<Rightarrow> [] | c # cs \<Rightarrow> if c = 45 then cs else s)
      in if s1 \<noteq> [] \<and> last s1 = 45 then butlast s1 else s1)"

definition cleanSlug :: "(jsstring \<Rightarrow> jsstring) \<Rightarrow> jsstring \<Rightarrow> jsstring" where
  "cleanSlug L slug =
     take 40 (trimHyphens (collapseHyphens (replaceOutside (toLowerCase L (trim (stripFences slug))))))"

text \<open>
  The time of day of \<^verbatim>\<open>toISOString()\<close> for the time value \<open>t\<close> (milliseconds since the
  epoch, UTC): the ISO string is \<^verbatim>\<open><date>THH:mm:ss.sssZ\<close>, its date part holds no \<^verbatim>\<open>T\<close>, so
  \<^verbatim>\<open>.split("T")[1]\<close> is \<^verbatim>\<open>HH:mm:ss.sssZ\<close>.
\<close>

definition pad2 :: "int \<Rightarrow> jsstring" where
  "pad2 n = [48 + nat (n div 10), 48 + nat (n mod 10)]"

definition pad3 :: "int \<Rightarrow> jsstring" where
  "pad3 n = [48 + nat (n div 100), 48 + nat (n div 10 mod 10), 48 + nat (n mod 10)]"

definition isoTimeOfDay :: "int \<Rightarrow> jsstring" where
  "isoTimeOfDay t =
     pad2 (t div 3600000 mod 24) @ [58] @ pad2 (t div 60000 mod 60) @ [58] @
     pad2 (t div 1000 mod 60) @ [46] @ pad3 (t mod 1000) @ [90]"

text \<open>\<^verbatim>\<open>now.toISOString().split("T")[1].split(".")[0].replace(/:/g, "").slice(0, 4)\<close>\<close>

definition fallbackSlug :: "int \<Rightarrow> jsstring" where
  "fallbackSlug now =
     take 4 (filter (\<lambda>c. c \<noteq> 58)
       (case split 46 (isoTimeOfDay now) of [] \<Rightarrow> [] | x # xs \<Rightarrow> x))"

text \<open>
  The slug the handler ends with, from what the slug call returned (\<open>None\<close> is \<^verbatim>\<open>null\<close>):
  \<^verbatim>\<open>if (slug) { slug = ... }\<close>, then \<^verbatim>\<open>if (!slug || slug.length < 3) { slug = ... }\<close>.
\<close>

definition finalSlug :: "(jsstring \<Rightarrow> jsstring) \<Rightarrow> int \<Rightarrow> jsstring option \<Rightarrow> jsstring" where
  "finalSlug L now slug =
     (let slug1 = (case slug of None \<Rightarrow> None
                   | Some s \<Rightarrow> if s \<noteq> [] then Some (cleanSlug L s) else Some s)
      in case slug1 of
           None \<Rightarrow> fallbackSlug now
         | Some s \<Rightarrow> if s = [] \<or> length s < 3 then fallbackSlug now else s)"

section \<open>The handler: saving the summary\<close>

text \<open>The decimal digits of a loop counter, as a template literal renders it.\<close>

fun showNat :: "nat \<Rightarrow> jsstring" where
  "showNat n = (if n < 10 then [48 + n] else showNat (n div 10) @ [48 + n mod 10])"

declare showNat.simps [simp del]

text \<open>
  File names inside the memory directory; \<open>date\<close> is \<^verbatim>\<open>new Date().toISOString().split("T")[0]\<close>.
\<close>

definition baseName :: "jsstring \<Rightarrow> jsstring \<Rightarrow> jsstring" where
  "baseName date slug = date @ str ''-reflector-'' @ slug @ str ''.md''"

definition altName :: "jsstring \<Rightarrow> jsstring \<Rightarrow> nat \<Rightarrow> jsstring" where
  "altName date slug i = date @ str ''-reflector-'' @ slug @ str ''-'' @ showNat i @ str ''.md''"

text \<open>
  The memory directory: file name to content. \<^verbatim>\<open>fs.access\<close> resolves when the file is there
  and rejects when it is not. The loop \<^verbatim>\<open>while (true)\<close> has no other exit than the
  \<^verbatim>\<open>break\<close>; a run that never breaks is the value \<open>None\<close>.
\<close>

type_synonym directory = "jsstring \<rightharpoonup> jsstring"

partial_function (option) probe :: "(nat \<Rightarrow> bool) \<Rightarrow> nat \<Rightarrow> nat option" where
  "probe taken i = (if taken i then probe taken (Suc i) else Some i)"

definition finalPath :: "directory \<Rightarrow> jsstring \<Rightarrow> jsstring \<Rightarrow> jsstring option" where
  "finalPath dir date slug =
     (if dir (baseName date slug) \<noteq> None
      then map_option (altName date slug) (probe (\<lambda>i. dir (altName date slug i) \<noteq> None) 2)
      else Some (baseName date slug))"

definition document :: "jsstring \<Rightarrow> jsstring \<Rightarrow> jsstring \<Rightarrow> jsstring \<Rightarrow> jsstring" where
  "document date session slug summary =
     str ''---'' @ [10] @ str ''date: '' @ date @ [10] @ str ''session: '' @ session @ [10] @
     str ''slug: '' @ slug @ [10] @ str ''---'' @ [10, 10] @ summary @ [10]"

text \<open>
  Step 4 of the handler: the path written and the directory after \<^verbatim>\<open>fs.writeFile\<close>, which
  replaces the content of a file that is there.
\<close>

definition saveSummary ::
  "directory \<Rightarrow> jsstring \<Rightarrow> jsstring \<Rightarrow> jsstring \<Rightarrow> jsstring \<Rightarrow> (jsstring \<times> directory) option" where
  "saveSummary dir date session slug summary =
     (case finalPath dir date slug of
        None \<Rightarrow> None
      | Some p \<Rightarrow> Some (p, dir(p \<mapsto> document date session slug summary)))"

section \<open>Notions used to state the properties\<close>

text \<open>The final \<open>n\<close> characters of \<open>s\<close>; none when \<open>n\<close> is not positive.\<close>

definition finalChars :: "int \<Rightarrow> jsstring \<Rightarrow> jsstring" where
  "finalChars n s = drop (length s - nat n) s"

fun isNegative :: "jsnum \<Rightarrow> bool" where
  "isNegative NaN = False"
| "isNegative (Fin m) = (m < 0)"
| "isNegative PosInf = False"
| "isNegative NegInf = True"

text \<open>A message line of a user with a plain string as content.\<close>

definition userMessage :: "jsstring \<Rightarrow> entry" where
  "userMessage s =
     Entry (Some (str ''message''))
       (Some \<lparr>role = Some (str ''user''), content = Str s, tool_calls = False\<rparr>)"

text \<open>
  A line that is noise or is skipped: it does not parse, is no message entry, is a tool or
  system message, or its text is noise (empty, a slash command, an administrative pattern).
\<close>

fun skipped :: "entry \<Rightarrow> bool" where
  "skipped Unparsable = True"
| "skipped JsonNull = False"
| "skipped (Entry ty m) =
     (ty \<noteq> Some (str ''message'') \<or>
      (case m of
         None \<Rightarrow> True
       | Some msg \<Rightarrow>
           role msg = Some (str ''tool'') \<or> role msg = Some (str ''system'') \<or>
           (case extractText (content msg) of Inl x \<Rightarrow> False | Inr text \<Rightarrow> isNoise text)))"

text \<open>The text a pass succeeds with: the trimmed text of a reply, when that is not empty.\<close>

fun attemptText :: "outcome \<Rightarrow> jsstring option" where
  "attemptText (AgentReturns (Text t)) = (if trim t \<noteq> [] then Some (trim t) else None)"
| "attemptText out = None"

text \<open>The \<^verbatim>\<open>catch\<close> block can format what the pass raises, if it raises.\<close>

fun formats :: "outcome \<Rightarrow> bool" where
  "formats (SetupRaises Unprintable) = False"
| "formats (AgentRaises Unprintable) = False"
| "formats out = True"

fun warnedModel :: "event \<Rightarrow> jsstring" where
  "warnedModel (WarnEmpty m) = m"
| "warnedModel (WarnFailed m) = m"
| "warnedModel e = []"

text \<open>The models of the warnings logged, in order.\<close>

definition warnings :: "event list \<Rightarrow> jsstring list" where
  "warnings es = map warnedModel (filter isWarn es)"

text \<open>The timeouts of the agent runs, in order.\<close>

definition timeouts :: "event list \<Rightarrow> jsnum list" where
  "timeouts es = map (\<lambda>r. snd (snd r)) (agentRuns es)"

fun attemptedModel :: "event \<Rightarrow> jsstring option" where
  "attemptedModel (LogSucceeded m) = Some m"
| "attemptedModel (WarnEmpty m) = Some m"
| "attemptedModel (WarnFailed m) = Some m"
| "attemptedModel e = None"

text \<open>The candidates tried, in order: each pass ends with one log line naming its model.\<close>

definition attempted :: "event list \<Rightarrow> jsstring list" where
  "attempted es = List.map_filter attemptedModel es"

text \<open>A configuration that sets the character budget only.\<close>

definition envMaxChars :: "jsstring \<Rightarrow> env" where
  "envMaxChars v =
     \<lparr>REFLECTOR_SUMMARY_MODEL = None, REFLECTOR_SLUG_MODEL = None,
      REFLECTOR_FALLBACK_MODELS = None, REFLECTOR_MAX_CHARS = Some v,
      REFLECTOR_TIMEOUT_MS = None\<rparr>"

text \<open>A message line of a user whose content is one text block with the given \<^verbatim>\<open>text\<close> field.\<close>

definition userBlock :: "textField \<Rightarrow> entry" where
  "userBlock tx =
     Entry (Some (str ''message''))
       (Some \<lparr>role = Some (str ''user''), content = Blocks [Some (Block (Some (str ''text'')) tx)],
              tool_calls = False\<rparr>)"

text \<open>A configuration that sets the timeout only.\<close>

definition envTimeout :: "jsstring \<Rightarrow> env" where
  "envTimeout v =
     \<lparr>REFLECTOR_SUMMARY_MODEL = None, REFLECTOR_SLUG_MODEL = None,
      REFLECTOR_FALLBACK_MODELS = None, REFLECTOR_MAX_CHARS = None,
      REFLECTOR_TIMEOUT_MS = Some v\<rparr>"








definition dropLead :: "jsstring \<Rightarrow> jsstring" where
  "dropLead s = (case s of [] \<Rightarrow> [] | c # cs \<Rightarrow> if c = 45 then cs else s)"

text \<open>A directory that holds the base name and every suffix from 2 up to \<open>n - 1\<close>.\<close>

definition crowded :: "jsstring \<Rightarrow> jsstring \<Rightarrow> nat \<Rightarrow> directory" where
  "crowded date slug n =
     (\<lambda>p. if p \<in> set (baseName date slug # map (altName date slug) [2..<n]) then Some [] else None)"

section \<open>The transcript\<close>

lemma marker_nonempty: "marker \<noteq> []"
  by (simp add: marker_def)

lemma slice_final: "0 < m \<Longrightarrow> m < int (length s) \<Longrightarrow> slice s (neg (Fin m)) = finalChars m s"
  by (simp add: finalChars_def Let_def nat_diff_distrib')

lemma truncateTail_pos:
  "0 < m \<Longrightarrow> truncateTail s (Fin m) = (if m < int (length s) then marker @ finalChars m s else s)"
  unfolding truncateTail_def using slice_final by simp

lemma truncateTail_NaN: "truncateTail s NaN = s"
  by (simp add: truncateTail_def)

lemma truncateTail_PosInf: "truncateTail s PosInf = s"
  by (simp add: truncateTail_def)

lemma finalChars_length: "0 \<le> n \<Longrightarrow> n \<le> int (length s) \<Longrightarrow> int (length (finalChars n s)) = n"
  by (simp add: finalChars_def)

lemma finalChars_suffix: "take (length s - nat n) s @ finalChars n s = s"
  by (simp add: finalChars_def)

lemma cleanLine_nonempty: "cleanLine U msg = Inr (Some l) \<Longrightarrow> l \<noteq> []"
  by (auto simp: cleanLine_def Let_def str_def split: if_splits sum.splits)

lemma processEntry_nonempty: "processEntry U e = Inr (Some l) \<Longrightarrow> l \<noteq> []"
  by (cases e) (auto simp: cleanLine_nonempty split: if_splits option.splits)

lemma collect_nonempty: "collect U lines = Inr tr \<Longrightarrow> \<forall>l\<in>set tr. l \<noteq> []"
proof (induction lines arbitrary: tr)
  case Nil
  then show ?case by simp
next
  case (Cons e es)
  then show ?case
    by (auto split: sum.splits option.splits dest: processEntry_nonempty)
qed

lemma join_empty_iff: "\<forall>l\<in>set ls. l \<noteq> [] \<Longrightarrow> join sep ls = [] \<longleftrightarrow> ls = []"
  by (induction sep ls rule: join.induct) auto

lemma truncateTail_empty_iff: "truncateTail s m = [] \<longleftrightarrow> s = [] \<and> \<not> isNegative m"
  by (cases m) (auto simp: truncateTail_def marker_nonempty)

lemma transcript_empty_iff_general:
  "buildCleanTranscript U lines maxChars = Inr t \<Longrightarrow>
     (t = [] \<longleftrightarrow> collect U lines = Inr [] \<and> \<not> isNegative maxChars)"
  by (auto simp: buildCleanTranscript_def truncateTail_empty_iff joined_def join_empty_iff
      split: sum.splits dest: collect_nonempty)

lemma isNoise_empty: "isNoise []"
  by (simp add: isNoise_def trim_def trimStart_def trimEnd_def)

lemma skipped_processEntry: "skipped e \<Longrightarrow> processEntry U e = Inr None"
  by (cases e) (auto simp: cleanLine_def Let_def split: option.splits sum.splits)

lemma skipped_collect: "\<forall>e\<in>set lines. skipped e \<Longrightarrow> collect U lines = Inr []"
  by (induction lines) (simp_all add: skipped_processEntry)

text \<open>
  The loop raises only on a \<^verbatim>\<open>null\<close> line, on a text that has no string conversion, or on a
  surviving message without a string role.
\<close>

lemma cleanLine_total:
  "role msg \<noteq> None \<Longrightarrow> extractText (content msg) = Inr t \<Longrightarrow> \<exists>r. cleanLine U msg = Inr r"
  by (auto simp: cleanLine_def labelOf_def Let_def split: option.splits)

lemma processEntry_total:
  "e \<noteq> JsonNull \<Longrightarrow>
   (\<forall>ty msg. e = Entry ty (Some msg) \<longrightarrow> role msg \<noteq> None \<and> (\<exists>t. extractText (content msg) = Inr t)) \<Longrightarrow>
     \<exists>r. processEntry U e = Inr r"
  by (cases e) (auto simp: cleanLine_total split: option.splits)

lemma collect_total:
  "\<forall>e\<in>set lines. e \<noteq> JsonNull \<and>
     (\<forall>ty msg. e = Entry ty (Some msg) \<longrightarrow> role msg \<noteq> None \<and> (\<exists>t. extractText (content msg) = Inr t)) \<Longrightarrow>
     \<exists>tr. collect U lines = Inr tr"
proof (induction lines)
  case Nil
  then show ?case by simp
next
  case (Cons e es)
  then obtain tr where "collect U es = Inr tr" by auto
  moreover from Cons.prems processEntry_total[of e U] obtain r where "processEntry U e = Inr r"
    by auto
  ultimately show ?case by simp
qed

lemmas eval_defs = userMessage_def userBlock_def cleanLine_def str_def isNoise_def trim_def trimStart_def
      trimEnd_def isWhiteSpace_def NOISE_PATTERNS_def cleanText_def keepLine_def toolMark_def
      labelOf_def Let_def

lemma collect_hi_yo:
  "collect U [userMessage (str ''hi''), userMessage (str ''yo'')] = Inr [str ''USER: hi'', str ''USER: yo'']"
  by (simp add: eval_defs)

lemma collect_please:
  "collect U [userMessage (str ''summarize me please'')] = Inr [str ''USER: summarize me please'']"
  by (simp add: eval_defs)

text \<open>
  A text that is not a string is kept when truthy and enters the transcript as the
  runtime prints it; a text without a string conversion makes the loop raise.
\<close>

lemma collect_stringified:
  "collect U [userBlock (Stringified (str ''5''))] = Inr [str ''USER: 5'']"
  "collect U [userBlock Unconvertible] = Inl TypeError"
  "collect U [userBlock Falsy] = Inr []"
  by (simp_all add: eval_defs)

lemma skipped_examples:
  "skipped (userMessage (str ''HEARTBEAT_OK''))" "skipped (userMessage (str ''/new''))"
  "skipped (userMessage (str '' ''))" "skipped (userMessage [])"
  "\<not> skipped (userBlock (Stringified (str ''5'')))"
  by (simp_all add: eval_defs)


text \<open>For a budget of at least 1 the code keeps exactly the final \<open>maxChars\<close> characters.\<close>

lemma truncation_keeps_final_chars:
  assumes "0 < m" and "collect U lines = Inr transcript"
  shows "(m < int (length (joined transcript)) \<longrightarrow>
            buildCleanTranscript U lines (Fin m) = Inr (marker @ finalChars m (joined transcript)) \<and>
            int (length (finalChars m (joined transcript))) = m \<and>
            (\<exists>head. joined transcript = head @ finalChars m (joined transcript))) \<and>
         (int (length (joined transcript)) \<le> m \<longrightarrow>
            buildCleanTranscript U lines (Fin m) = Inr (joined transcript))"
proof -
  have b: "buildCleanTranscript U lines (Fin m) =
      Inr (if m < int (length (joined transcript)) then marker @ finalChars m (joined transcript)
           else joined transcript)"
    using assms by (simp add: buildCleanTranscript_def truncateTail_pos)
  have "m < int (length (joined transcript)) \<Longrightarrow> int (length (finalChars m (joined transcript))) = m"
    using assms(1) by (simp add: finalChars_length)
  moreover have "\<exists>head. joined transcript = head @ finalChars m (joined transcript)"
    using finalChars_suffix[of "joined transcript" m] by metis
  ultimately show ?thesis using b by simp
qed

lemma truncation_keeps_final_chars_example:
  "buildCleanTranscript id [userMessage (str ''hi''), userMessage (str ''yo'')] (Fin 8) =
     Inr (marker @ str ''USER: yo'') \<and>
   buildCleanTranscript id [userMessage (str ''hi''), userMessage (str ''yo'')] (Fin 18) =
     Inr (str ''USER: hi'' @ [10, 10] @ str ''USER: yo'')"
proof -
  let ?lines = "[userMessage (str ''hi''), userMessage (str ''yo'')]"
  let ?tr = "[str ''USER: hi'', str ''USER: yo'']"
  have c: "collect id ?lines = Inr ?tr" by (rule collect_hi_yo)
  have j: "joined ?tr = str ''USER: hi'' @ [10, 10] @ str ''USER: yo''" by (simp add: joined_def)
  have l: "length (joined ?tr) = 18" by (simp only: j) (simp add: str_def)
  have f: "finalChars 8 (joined ?tr) = str ''USER: yo''"
    by (simp only: j) (simp add: finalChars_def str_def)
  from truncation_keeps_final_chars[of 8 id ?lines ?tr, OF _ c] l f
  have 1: "buildCleanTranscript id ?lines (Fin 8) = Inr (marker @ str ''USER: yo'')" by simp
  from truncation_keeps_final_chars[of 18 id ?lines ?tr, OF _ c] l j
  have 2: "buildCleanTranscript id ?lines (Fin 18) = Inr (str ''USER: hi'' @ [10, 10] @ str ''USER: yo'')"
    by simp
  from 1 2 show ?thesis by (rule conjI)
qed

lemma maxChars_zero: "maxTranscriptChars R (envMaxChars (str ''0'')) = Fin 0"
  by (simp add: maxTranscriptChars_def envMaxChars_def parseInt_def str_def trimStart_def
      isWhiteSpace_def isDigit_def digitsValue_def)

text \<open>
  Claim C1 fails on the code at the budget 0, which \<^verbatim>\<open>REFLECTOR_MAX_CHARS = "0"\<close> sets: the
  joined transcript of 25 characters is longer than the budget, and the result is the
  marker followed by all 25 characters, where the claim has the marker followed by the
  final 0 of them. (\<^verbatim>\<open>joined.slice(-0)\<close> is \<^verbatim>\<open>joined.slice(0)\<close>.)
\<close>

theorem zero_budget_keeps_whole_transcript:
  "maxTranscriptChars Fin (envMaxChars (str ''0'')) = Fin 0 \<and>
   collect id [userMessage (str ''summarize me please'')] = Inr [str ''USER: summarize me please''] \<and>
   lengthGt (length (joined [str ''USER: summarize me please''])) (Fin 0) \<and>
   buildCleanTranscript id [userMessage (str ''summarize me please'')] (Fin 0) =
     Inr (marker @ str ''USER: summarize me please'') \<and>
   marker @ str ''USER: summarize me please'' \<noteq>
     marker @ finalChars 0 (joined [str ''USER: summarize me please''])"
proof -
  have c: "collect id [userMessage (str ''summarize me please'')] = Inr [str ''USER: summarize me please'']"
    by (rule collect_please)
  have l: "length (str ''USER: summarize me please'') = 25" by (simp add: str_def)
  have n: "str ''USER: summarize me please'' \<noteq> []" by (simp add: str_def)
  show ?thesis
    unfolding buildCleanTranscript_def c
    by (simp add: truncateTail_def joined_def finalChars_def l n maxChars_zero)
qed

text \<open>
  Claim C9, as the code has it: for a budget that is not negative, the transcript is empty
  if and only if no clean line survived; every surviving line is non-empty; and lines that
  are all noise or skipped give the empty transcript. (With a negative budget the empty
  join is "longer" than the budget and the marker alone is returned: see the
  counterexample.)
\<close>

theorem transcript_empty_iff_no_survivor:
  assumes "\<not> isNegative maxChars"
  shows "(\<forall>t. buildCleanTranscript U lines maxChars = Inr t \<longrightarrow> (t = [] \<longleftrightarrow> collect U lines = Inr [])) \<and>
         (\<forall>transcript l. collect U lines = Inr transcript \<longrightarrow> l \<in> set transcript \<longrightarrow> l \<noteq> []) \<and>
         ((\<forall>e\<in>set lines. skipped e) \<longrightarrow> buildCleanTranscript U lines maxChars = Inr [])"
proof -
  have 1: "\<forall>t. buildCleanTranscript U lines maxChars = Inr t \<longrightarrow> (t = [] \<longleftrightarrow> collect U lines = Inr [])"
    using assms transcript_empty_iff_general[of U lines maxChars] by simp
  have 2: "\<forall>transcript l. collect U lines = Inr transcript \<longrightarrow> l \<in> set transcript \<longrightarrow> l \<noteq> []"
    using collect_nonempty[of U lines] by blast
  have 3: "(\<forall>e\<in>set lines. skipped e) \<longrightarrow> buildCleanTranscript U lines maxChars = Inr []"
  proof
    assume "\<forall>e\<in>set lines. skipped e"
    then have "collect U lines = Inr []" by (rule skipped_collect)
    with assms show "buildCleanTranscript U lines maxChars = Inr []"
      by (simp add: buildCleanTranscript_def joined_def truncateTail_empty_iff)
  qed
  from 1 2 3 show ?thesis by blast
qed

theorem transcript_empty_iff_no_survivor_witness:
  "buildCleanTranscript id
     [userMessage (str ''HEARTBEAT_OK''), userMessage (str ''/new''), userMessage [], Unparsable,
      userBlock Falsy]
     (Fin 80000) = Inr [] \<and>
   buildCleanTranscript id [userMessage (str ''hi''), userMessage (str ''yo'')] (Fin 80000) \<noteq> Inr [] \<and>
   buildCleanTranscript id [userBlock (Stringified (str ''5''))] (Fin 80000) \<noteq> Inr []"
proof -
  have n: "\<not> isNegative (Fin 80000)" by simp
  have s5: "skipped (userBlock Falsy)" by (simp add: eval_defs)
  have "\<forall>e\<in>set [userMessage (str ''HEARTBEAT_OK''), userMessage (str ''/new''), userMessage [],
                 Unparsable, userBlock Falsy]. skipped e"
    by (simp add: skipped_examples s5)
  with transcript_empty_iff_no_survivor[OF n, of id
      "[userMessage (str ''HEARTBEAT_OK''), userMessage (str ''/new''), userMessage [], Unparsable,
        userBlock Falsy]"]
  have 1: "buildCleanTranscript id
     [userMessage (str ''HEARTBEAT_OK''), userMessage (str ''/new''), userMessage [], Unparsable,
      userBlock Falsy]
     (Fin 80000) = Inr []" by blast
  have "collect id [userMessage (str ''hi''), userMessage (str ''yo'')] \<noteq> Inr []"
    by (simp only: collect_hi_yo) simp
  with transcript_empty_iff_no_survivor[OF n, of id "[userMessage (str ''hi''), userMessage (str ''yo'')]"]
  have 2: "buildCleanTranscript id [userMessage (str ''hi''), userMessage (str ''yo'')] (Fin 80000) \<noteq> Inr []"
    by blast
  have "collect id [userBlock (Stringified (str ''5''))] \<noteq> Inr []"
    by (simp only: collect_stringified) simp
  with transcript_empty_iff_no_survivor[OF n, of id "[userBlock (Stringified (str ''5''))]"]
  have 3: "buildCleanTranscript id [userBlock (Stringified (str ''5''))] (Fin 80000) \<noteq> Inr []"
    by blast
  from 1 2 3 show ?thesis by simp
qed

text \<open>With the budget -1 and no line at all, the result is the marker, which is not empty.\<close>

theorem negative_budget_marker_counterexample:
  "collect id [] = Inr [] \<and>
   buildCleanTranscript id [] (Fin (- 1)) = Inr marker \<and> marker \<noteq> []"
  by (simp add: buildCleanTranscript_def joined_def truncateTail_def marker_nonempty)

section \<open>The generation client and the two calls\<close>

lemma runEvent_notWarn [simp]: "\<not> isWarn (runEvent k m t)"
  by (simp add: runEvent_def split: prod.splits)

lemma tryModels_fail_step:
  assumes "attemptText (run k m) = None" and "formats (run k m)"
  shows "snd (tryModels run t k (m # ms)) = snd (tryModels run t (Suc k) ms) \<and>
         warnings (fst (tryModels run t k (m # ms))) = m # warnings (fst (tryModels run t (Suc k) ms))"
proof (cases "run k m")
  case (SetupRaises v)
  with assms show ?thesis by (cases v) (simp_all add: warnings_def Let_def)
next
  case (AgentRaises v)
  with assms show ?thesis by (cases v) (simp_all add: warnings_def Let_def)
next
  case (AgentReturns r)
  with assms show ?thesis by (cases r) (simp_all add: warnings_def Let_def split: if_splits)
qed

lemma tryModels_success_step:
  assumes "attemptText (run k m) = Some x"
  shows "snd (tryModels run t k (m # ms)) = Inr (Some x) \<and>
         warnings (fst (tryModels run t k (m # ms))) = []"
proof (cases "run k m")
  case (SetupRaises v)
  with assms show ?thesis by simp
next
  case (AgentRaises v)
  with assms show ?thesis by simp
next
  case (AgentReturns r)
  with assms show ?thesis by (cases r) (simp_all add: warnings_def Let_def split: if_splits)
qed

lemma tryModels_unprintable_step:
  assumes "\<not> formats (run k m)"
  shows "snd (tryModels run t k (m # ms)) = Inl FormatError \<and>
         warnings (fst (tryModels run t k (m # ms))) = []"
proof (cases "run k m")
  case (SetupRaises v)
  with assms show ?thesis by (cases v) (simp_all add: warnings_def Let_def)
next
  case (AgentRaises v)
  with assms show ?thesis by (cases v) (simp_all add: warnings_def Let_def)
next
  case (AgentReturns r)
  with assms show ?thesis by simp
qed

lemma tryModels_all_fail:
  "(\<forall>i<length ms. attemptText (run (k + i) (ms ! i)) = None \<and> formats (run (k + i) (ms ! i))) \<Longrightarrow>
     snd (tryModels run t k ms) = Inr None \<and> warnings (fst (tryModels run t k ms)) = ms"
proof (induction ms arbitrary: k)
  case Nil
  then show ?case by (simp add: warnings_def)
next
  case (Cons m ms)
  from Cons.prems have h: "attemptText (run k m) = None" "formats (run k m)" by force+
  from Cons.prems
  have "\<forall>i<length ms. attemptText (run (Suc k + i) (ms ! i)) = None \<and> formats (run (Suc k + i) (ms ! i))"
    by force
  from Cons.IH[OF this] tryModels_fail_step[where run=run and k=k and m=m, OF h] show ?case by simp
qed

lemma tryModels_first_success:
  "j < length ms \<Longrightarrow> attemptText (run (k + j) (ms ! j)) = Some x \<Longrightarrow>
   (\<forall>i<j. attemptText (run (k + i) (ms ! i)) = None \<and> formats (run (k + i) (ms ! i))) \<Longrightarrow>
     snd (tryModels run t k ms) = Inr (Some x) \<and> warnings (fst (tryModels run t k ms)) = take j ms"
proof (induction ms arbitrary: k j)
  case Nil
  then show ?case by simp
next
  case (Cons m ms)
  show ?case
  proof (cases j)
    case 0
    with Cons.prems have "attemptText (run k m) = Some x" by simp
    from tryModels_success_step[where run=run and k=k and m=m, OF this] 0 show ?thesis by simp
  next
    case (Suc j')
    with Cons.prems have h: "attemptText (run k m) = None" "formats (run k m)" by force+
    from Suc Cons.prems have a: "j' < length ms" and b: "attemptText (run (Suc k + j') (ms ! j')) = Some x"
      by simp_all
    from Suc Cons.prems
    have c: "\<forall>i<j'. attemptText (run (Suc k + i) (ms ! i)) = None \<and> formats (run (Suc k + i) (ms ! i))"
      by force
    from Cons.IH[OF a b c] tryModels_fail_step[where run=run and k=k and m=m, OF h] Suc show ?thesis by simp
  qed
qed

lemma tryModels_first_unprintable:
  "j < length ms \<Longrightarrow> \<not> formats (run (k + j) (ms ! j)) \<Longrightarrow>
   (\<forall>i<j. attemptText (run (k + i) (ms ! i)) = None \<and> formats (run (k + i) (ms ! i))) \<Longrightarrow>
     snd (tryModels run t k ms) = Inl FormatError \<and> warnings (fst (tryModels run t k ms)) = take j ms"
proof (induction ms arbitrary: k j)
  case Nil
  then show ?case by simp
next
  case (Cons m ms)
  show ?case
  proof (cases j)
    case 0
    with Cons.prems have "\<not> formats (run k m)" by simp
    from tryModels_unprintable_step[where run=run and k=k and m=m, OF this] 0 show ?thesis by simp
  next
    case (Suc j')
    with Cons.prems have h: "attemptText (run k m) = None" "formats (run k m)" by force+
    from Suc Cons.prems have a: "j' < length ms" and b: "\<not> formats (run (Suc k + j') (ms ! j'))"
      by simp_all
    from Suc Cons.prems
    have c: "\<forall>i<j'. attemptText (run (Suc k + i) (ms ! i)) = None \<and> formats (run (Suc k + i) (ms ! i))"
      by force
    from Cons.IH[OF a b c] tryModels_fail_step[where run=run and k=k and m=m, OF h] Suc show ?thesis by simp
  qed
qed

text \<open>
  What \<^verbatim>\<open>llmCall\<close> does, in full. As long as the \<^verbatim>\<open>catch\<close> block can format what the passes
  raise: if every pass fails or is empty, the result is \<^verbatim>\<open>null\<close> with one warning per
  candidate, in order; if pass \<open>j\<close> is the first to succeed, the result is its trimmed text
  with one warning for each of the \<open>j\<close> earlier candidates. And if pass \<open>j\<close> is the first to
  raise a value the \<^verbatim>\<open>catch\<close> block cannot format, the call raises, after the warnings of the
  \<open>j\<close> earlier candidates and with none for this one.
\<close>

lemma llmCall_outcomes:
  "((\<forall>i<length (m # fs). attemptText (run i ((m # fs) ! i)) = None \<and> formats (run i ((m # fs) ! i))) \<longrightarrow>
      snd (llmCall run m fs t) = Inr None \<and> warnings (fst (llmCall run m fs t)) = m # fs) \<and>
   (\<forall>j x. j < length (m # fs) \<and> attemptText (run j ((m # fs) ! j)) = Some x \<and>
      (\<forall>i<j. attemptText (run i ((m # fs) ! i)) = None \<and> formats (run i ((m # fs) ! i))) \<longrightarrow>
      snd (llmCall run m fs t) = Inr (Some x) \<and> warnings (fst (llmCall run m fs t)) = take j (m # fs)) \<and>
   (\<forall>j. j < length (m # fs) \<and> \<not> formats (run j ((m # fs) ! j)) \<and>
      (\<forall>i<j. attemptText (run i ((m # fs) ! i)) = None \<and> formats (run i ((m # fs) ! i))) \<longrightarrow>
      snd (llmCall run m fs t) = Inl FormatError \<and> warnings (fst (llmCall run m fs t)) = take j (m # fs))"
proof -
  have none: "(\<forall>i<length (m # fs). attemptText (run i ((m # fs) ! i)) = None \<and> formats (run i ((m # fs) ! i))) \<longrightarrow>
      snd (llmCall run m fs t) = Inr None \<and> warnings (fst (llmCall run m fs t)) = m # fs"
  proof
    assume "\<forall>i<length (m # fs). attemptText (run i ((m # fs) ! i)) = None \<and> formats (run i ((m # fs) ! i))"
    then have "\<forall>i<length (m # fs). attemptText (run (0 + i) ((m # fs) ! i)) = None \<and>
        formats (run (0 + i) ((m # fs) ! i))" by simp
    from tryModels_all_fail[where run=run and k=0 and ms="m # fs", OF this]
    show "snd (llmCall run m fs t) = Inr None \<and> warnings (fst (llmCall run m fs t)) = m # fs"
      by (simp only: llmCall_def)
  qed
  have some: "\<forall>j x. j < length (m # fs) \<and> attemptText (run j ((m # fs) ! j)) = Some x \<and>
      (\<forall>i<j. attemptText (run i ((m # fs) ! i)) = None \<and> formats (run i ((m # fs) ! i))) \<longrightarrow>
      snd (llmCall run m fs t) = Inr (Some x) \<and> warnings (fst (llmCall run m fs t)) = take j (m # fs)"
  proof (intro allI impI)
    fix j x
    assume a: "j < length (m # fs) \<and> attemptText (run j ((m # fs) ! j)) = Some x \<and>
        (\<forall>i<j. attemptText (run i ((m # fs) ! i)) = None \<and> formats (run i ((m # fs) ! i)))"
    then have 1: "j < length (m # fs)"
      and 2: "attemptText (run (0 + j) ((m # fs) ! j)) = Some x"
      and 3: "\<forall>i<j. attemptText (run (0 + i) ((m # fs) ! i)) = None \<and> formats (run (0 + i) ((m # fs) ! i))"
      by simp_all
    from tryModels_first_success[where run=run and k=0 and ms="m # fs", OF 1 2 3]
    show "snd (llmCall run m fs t) = Inr (Some x) \<and> warnings (fst (llmCall run m fs t)) = take j (m # fs)"
      by (simp only: llmCall_def)
  qed
  have bad: "\<forall>j. j < length (m # fs) \<and> \<not> formats (run j ((m # fs) ! j)) \<and>
      (\<forall>i<j. attemptText (run i ((m # fs) ! i)) = None \<and> formats (run i ((m # fs) ! i))) \<longrightarrow>
      snd (llmCall run m fs t) = Inl FormatError \<and> warnings (fst (llmCall run m fs t)) = take j (m # fs)"
  proof (intro allI impI)
    fix j
    assume a: "j < length (m # fs) \<and> \<not> formats (run j ((m # fs) ! j)) \<and>
        (\<forall>i<j. attemptText (run i ((m # fs) ! i)) = None \<and> formats (run i ((m # fs) ! i)))"
    then have 1: "j < length (m # fs)"
      and 2: "\<not> formats (run (0 + j) ((m # fs) ! j))"
      and 3: "\<forall>i<j. attemptText (run (0 + i) ((m # fs) ! i)) = None \<and> formats (run (0 + i) ((m # fs) ! i))"
      by simp_all
    from tryModels_first_unprintable[where run=run and k=0 and ms="m # fs", OF 1 2 3]
    show "snd (llmCall run m fs t) = Inl FormatError \<and> warnings (fst (llmCall run m fs t)) = take j (m # fs)"
      by (simp only: llmCall_def)
  qed
  from none some bad show ?thesis by blast
qed

lemma llmCall_fallback_example:
  "snd (llmCall (\<lambda>k m. if k = 2 then AgentReturns (Text (str '' ok '')) else if k = 1 then AgentReturns NoText else AgentRaises Printable)
         (str ''A'') [str ''B'', str ''C''] NaN) = Inr (Some (str ''ok'')) \<and>
   warnings (fst (llmCall (\<lambda>k m. if k = 2 then AgentReturns (Text (str '' ok '')) else if k = 1 then AgentReturns NoText else AgentRaises Printable)
         (str ''A'') [str ''B'', str ''C''] NaN)) = [str ''A'', str ''B''] \<and>
   snd (llmCall (\<lambda>k m. SetupRaises Printable) (str ''A'') [str ''B'', str ''C''] NaN) = Inr None \<and>
   warnings (fst (llmCall (\<lambda>k m. SetupRaises Printable) (str ''A'') [str ''B'', str ''C''] NaN)) =
     [str ''A'', str ''B'', str ''C'']"
  by (simp add: llmCall_def warnings_def trim_def trimStart_def trimEnd_def isWhiteSpace_def str_def)

text \<open>
  Claim C2 fails on the code: the first candidate raises a value that the \<^verbatim>\<open>catch\<close> block
  cannot format (\<^verbatim>\<open>String(err)\<close> raises in lines 221 to 224), and \<^verbatim>\<open>llmCall\<close> raises: no
  warning is logged and the second candidate, which would have answered, is never tried.
  With a value the block can format, the same call logs one warning and returns the second
  candidate's text.
\<close>

theorem llmCall_unformattable_error_propagates:
  "llmCall (\<lambda>k m. if k = 0 then AgentRaises Unprintable else AgentReturns (Text (str ''ok'')))
      (str ''a/b'') [str ''c''] NaN =
     ([MkTemp 0, RunAgent 0 (Some (str ''a'')) (str ''b'') (Fin 60000)], Inl FormatError) \<and>
   llmCall (\<lambda>k m. if k = 0 then AgentRaises Printable else AgentReturns (Text (str ''ok'')))
      (str ''a/b'') [str ''c''] NaN =
     ([MkTemp 0, RunAgent 0 (Some (str ''a'')) (str ''b'') (Fin 60000), WarnFailed (str ''a/b''),
       MkTemp 1, RunAgent 1 None (str ''c'') (Fin 60000), RmTemp 1, LogSucceeded (str ''c'')],
      Inr (Some (str ''ok'')))"
  by (simp add: llmCall_def runEvent_def splitProviderModel_def str_def trim_def trimStart_def
      trimEnd_def isWhiteSpace_def)


lemma timeouts_simps [simp]:
  "timeouts [] = []"
  "timeouts (MkTemp k # es) = timeouts es"
  "timeouts (RmTemp k # es) = timeouts es"
  "timeouts (LogSucceeded m # es) = timeouts es"
  "timeouts (WarnEmpty m # es) = timeouts es"
  "timeouts (WarnFailed m # es) = timeouts es"
  "timeouts (runEvent k m t # es) = orDefaultTimeout t # timeouts es"
  by (simp_all add: timeouts_def runEvent_def split: prod.splits)

lemma attempted_simps [simp]:
  "attempted [] = []"
  "attempted (MkTemp k # es) = attempted es"
  "attempted (RmTemp k # es) = attempted es"
  "attempted (LogSucceeded m # es) = m # attempted es"
  "attempted (WarnEmpty m # es) = m # attempted es"
  "attempted (WarnFailed m # es) = m # attempted es"
  "attempted (runEvent k m t # es) = attempted es"
  by (simp_all add: attempted_def runEvent_def List.map_filter_simps split: prod.splits)

lemma tryModels_timeouts: "set (timeouts (fst (tryModels run t k ms))) \<subseteq> {orDefaultTimeout t}"
proof (induction ms arbitrary: k)
  case Nil
  then show ?case by simp
next
  case (Cons m ms)
  show ?case
  proof (cases "run k m")
    case (SetupRaises v)
    with Cons.IH[of "Suc k"] show ?thesis by (cases v) (simp_all add: Let_def)
  next
    case (AgentRaises v)
    with Cons.IH[of "Suc k"] show ?thesis by (cases v) (simp_all add: Let_def)
  next
    case (AgentReturns r)
    with Cons.IH[of "Suc k"] show ?thesis by (cases r) (simp_all add: Let_def)
  qed
qed

lemma tryModels_attempted:
  "attempted (fst (tryModels run t k ms)) = take (length (attempted (fst (tryModels run t k ms)))) ms \<and>
   (snd (tryModels run t k ms) = Inr None \<longrightarrow> attempted (fst (tryModels run t k ms)) = ms)"
proof (induction ms arbitrary: k)
  case Nil
  then show ?case by simp
next
  case (Cons m ms)
  show ?case
  proof (cases "run k m")
    case (SetupRaises v)
    with Cons.IH[of "Suc k"] show ?thesis by (cases v) (simp_all add: Let_def)
  next
    case (AgentRaises v)
    with Cons.IH[of "Suc k"] show ?thesis by (cases v) (simp_all add: Let_def)
  next
    case (AgentReturns r)
    with Cons.IH[of "Suc k"] show ?thesis by (cases r) (simp_all add: Let_def)
  qed
qed

text \<open>A pass whose agent call returns removes its temporary directory before the next pass.\<close>

lemma llmCall_return_cleans_up:
  "fst (llmCall (\<lambda>k m. AgentReturns NoText) (str ''a/b'') [str ''c''] NaN) =
     [MkTemp 0, RunAgent 0 (Some (str ''a'')) (str ''b'') (Fin 60000), RmTemp 0, WarnEmpty (str ''a/b''),
      MkTemp 1, RunAgent 1 None (str ''c'') (Fin 60000), RmTemp 1, WarnEmpty (str ''c'')]"
  by (simp add: llmCall_def runEvent_def splitProviderModel_def str_def)

text \<open>
  Claim C5 fails on the code: when the agent call of a pass raises, control leaves the
  \<^verbatim>\<open>try\<close> block before \<^verbatim>\<open>fs.rm\<close>, and the next candidate is tried with the temporary
  directory of the failed pass still there. Here both passes raise: two directories are
  made and none is removed.
\<close>

theorem llmCall_raise_skips_cleanup:
  "fst (llmCall (\<lambda>k m. AgentRaises Printable) (str ''a/b'') [str ''c''] NaN) =
     [MkTemp 0, RunAgent 0 (Some (str ''a'')) (str ''b'') (Fin 60000), WarnFailed (str ''a/b''),
      MkTemp 1, RunAgent 1 None (str ''c'') (Fin 60000), WarnFailed (str ''c'')] \<and>
   RmTemp 0 \<notin> set (fst (llmCall (\<lambda>k m. AgentRaises Printable) (str ''a/b'') [str ''c''] NaN))"
  by (simp add: llmCall_def runEvent_def splitProviderModel_def str_def)

lemma parseInt_small:
  "parseInt R (str ''10000'') = Fin 10000" "parseInt R (str ''60000'') = Fin 60000"
  by (simp_all add: parseInt_def str_def trimStart_def isWhiteSpace_def isDigit_def digitsValue_def
      Let_def)

text \<open>Beyond \<open>2 ^ 53\<close> the number is the one the runtime rounds to.\<close>

lemma parseInt_large: "parseInt R (str ''9007199254740993'') = R 9007199254740993"
  by (simp add: parseInt_def str_def trimStart_def isWhiteSpace_def isDigit_def digitsValue_def
      Let_def)

lemma timeoutMs_10000: "timeoutMs R (envTimeout (str ''10000'')) = Fin 10000"
  by (simp add: timeoutMs_def envTimeout_def parseInt_def str_def trimStart_def isWhiteSpace_def
      isDigit_def digitsValue_def Let_def)

lemma timeoutMs_60000: "timeoutMs R (envTimeout (str ''60000'')) = Fin 60000"
  by (simp add: timeoutMs_def envTimeout_def parseInt_def str_def trimStart_def isWhiteSpace_def
      isDigit_def digitsValue_def Let_def)

lemma fallbackModels_envTimeout: "fallbackModels (envTimeout v) = []"
  by (simp add: fallbackModels_def envTimeout_def trim_def trimStart_def trimEnd_def)

lemma models_envTimeout:
  "slugModel (envTimeout v) = str ''google/gemini-2.5-flash-lite''"
  "summaryModel (envTimeout v) = str ''google/gemini-2.5-flash''"
  by (simp_all add: slugModel_def summaryModel_def envTimeout_def)

lemma summaryThenSlug_issued:
  "snd (summaryThenSlug R runS runG e) \<noteq> None \<longleftrightarrow> (\<exists>s. snd (summaryCall R runS e) = Inr (Some s))"
  by (auto simp: summaryThenSlug_def split: sum.splits option.splits)

lemma summaryThenSlug_parts:
  assumes "summaryThenSlug R runS runG e = ((evS, rS), Some (evG, rG))"
  shows "\<exists>s. summaryCall R runS e = (evS, Inr (Some s)) \<and> rS = Inr (Some s) \<and>
             slugCall (runG s) e = (evG, rG)"
  using assms by (auto simp: summaryThenSlug_def split: sum.splits option.splits)

text \<open>
  Claim C6, as the code has it: every agent run of the slug call has the fixed timeout
  30000 ms, whatever is configured; every agent run of the summary call has the
  configured timeout (60000 when that is absent, 0 or not a number); and the candidates
  the slug call tries are, in order, a prefix of the slug model, the summary model and
  the fallback chain, all of them when the call returns \<^verbatim>\<open>null\<close>. The same holds of the
  two calls of one invocation, where the slug call is made exactly when the summary call
  returned a text, and is made on that text. So the slug timeout is the shorter one
  exactly when the summary timeout exceeds 30000.
\<close>

theorem slug_call_timeout_and_candidates:
  "set (timeouts (fst (slugCall run e))) \<subseteq> {Fin 30000} \<and>
   set (timeouts (fst (summaryCall R run' e))) \<subseteq> {orDefaultTimeout (timeoutMs R e)} \<and>
   attempted (fst (slugCall run e)) =
     take (length (attempted (fst (slugCall run e)))) (slugModel e # summaryModel e # fallbackModels e) \<and>
   (snd (slugCall run e) = Inr None \<longrightarrow>
      attempted (fst (slugCall run e)) = slugModel e # summaryModel e # fallbackModels e) \<and>
   (\<forall>evS rS evG rG. summaryThenSlug R runS runG e = ((evS, rS), Some (evG, rG)) \<longrightarrow>
      set (timeouts evG) \<subseteq> {Fin 30000} \<and>
      set (timeouts evS) \<subseteq> {orDefaultTimeout (timeoutMs R e)} \<and>
      attempted evG =
        take (length (attempted evG)) (slugModel e # summaryModel e # fallbackModels e) \<and>
      (rG = Inr None \<longrightarrow> attempted evG = slugModel e # summaryModel e # fallbackModels e)) \<and>
   ((snd (summaryThenSlug R runS runG e) \<noteq> None) =
      (\<exists>s. snd (summaryCall R runS e) = Inr (Some s)))"
proof -
  let ?ms = "slugModel e # summaryModel e # fallbackModels e"
  have 1: "set (timeouts (fst (slugCall run e))) \<subseteq> {Fin 30000}"
    unfolding slugCall_def llmCall_def using tryModels_timeouts[of run "Fin 30000" 0 ?ms] by simp
  have 2: "set (timeouts (fst (summaryCall R run' e))) \<subseteq> {orDefaultTimeout (timeoutMs R e)}"
    unfolding summaryCall_def llmCall_def by (rule tryModels_timeouts)
  have 3: "attempted (fst (slugCall run e)) = take (length (attempted (fst (slugCall run e)))) ?ms \<and>
           (snd (slugCall run e) = Inr None \<longrightarrow> attempted (fst (slugCall run e)) = ?ms)"
    unfolding slugCall_def llmCall_def by (rule tryModels_attempted)
  have 4: "\<forall>evS rS evG rG. summaryThenSlug R runS runG e = ((evS, rS), Some (evG, rG)) \<longrightarrow>
      set (timeouts evG) \<subseteq> {Fin 30000} \<and>
      set (timeouts evS) \<subseteq> {orDefaultTimeout (timeoutMs R e)} \<and>
      attempted evG = take (length (attempted evG)) ?ms \<and>
      (rG = Inr None \<longrightarrow> attempted evG = ?ms)"
  proof (intro allI impI)
    fix evS rS evG rG
    assume "summaryThenSlug R runS runG e = ((evS, rS), Some (evG, rG))"
    from summaryThenSlug_parts[OF this] obtain s where
      S: "summaryCall R runS e = (evS, Inr (Some s))" and G: "slugCall (runG s) e = (evG, rG)"
      by blast
    from G have g: "tryModels (runG s) (Fin 30000) 0 ?ms = (evG, rG)"
      by (simp add: slugCall_def llmCall_def)
    from S have s: "tryModels runS (timeoutMs R e) 0 (summaryModel e # fallbackModels e) = (evS, Inr (Some s))"
      by (simp add: summaryCall_def llmCall_def)
    from tryModels_timeouts[of "runG s" "Fin 30000" 0 ?ms] g
    have a: "set (timeouts evG) \<subseteq> {Fin 30000}" by simp
    from tryModels_timeouts[of runS "timeoutMs R e" 0 "summaryModel e # fallbackModels e"] s
    have b: "set (timeouts evS) \<subseteq> {orDefaultTimeout (timeoutMs R e)}" by simp
    from tryModels_attempted[of "runG s" "Fin 30000" 0 ?ms] g
    have c: "attempted evG = take (length (attempted evG)) ?ms \<and>
             (rG = Inr None \<longrightarrow> attempted evG = ?ms)" by simp
    from a b c show "set (timeouts evG) \<subseteq> {Fin 30000} \<and>
      set (timeouts evS) \<subseteq> {orDefaultTimeout (timeoutMs R e)} \<and>
      attempted evG = take (length (attempted evG)) ?ms \<and>
      (rG = Inr None \<longrightarrow> attempted evG = ?ms)" by simp
  qed
  note 5 = summaryThenSlug_issued[of R runS runG e]
  from 1 conjI[OF 2 conjI[OF conjunct1[OF 3] conjI[OF conjunct2[OF 3] conjI[OF 4 5]]]]
  show ?thesis by (rule conjI)
qed

lemma summaryCall_ok:
  "timeoutMs R (envTimeout v) = Fin n \<Longrightarrow> n \<noteq> 0 \<Longrightarrow>
   summaryCall R (\<lambda>k m. AgentReturns (Text (str ''ok''))) (envTimeout v) =
     ([MkTemp 0, RunAgent 0 (Some (str ''google'')) (str ''gemini-2.5-flash'') (Fin n), RmTemp 0,
       LogSucceeded (str ''google/gemini-2.5-flash'')], Inr (Some (str ''ok'')))"
  by (simp add: summaryCall_def llmCall_def models_envTimeout fallbackModels_envTimeout)
     (simp add: runEvent_def splitProviderModel_def trim_def trimStart_def trimEnd_def
        isWhiteSpace_def str_def)

lemma slugCall_ok:
  "slugCall (\<lambda>k m. AgentReturns (Text (str ''my-slug''))) (envTimeout v) =
     ([MkTemp 0, RunAgent 0 (Some (str ''google'')) (str ''gemini-2.5-flash-lite'') (Fin 30000), RmTemp 0,
       LogSucceeded (str ''google/gemini-2.5-flash-lite'')], Inr (Some (str ''my-slug'')))"
  by (simp add: slugCall_def llmCall_def models_envTimeout fallbackModels_envTimeout)
     (simp add: runEvent_def splitProviderModel_def trim_def trimStart_def trimEnd_def
        isWhiteSpace_def str_def)

lemma slugCall_fails:
  "slugCall (\<lambda>k m. AgentRaises Printable) (envTimeout v) =
     ([MkTemp 0, RunAgent 0 (Some (str ''google'')) (str ''gemini-2.5-flash-lite'') (Fin 30000),
       WarnFailed (str ''google/gemini-2.5-flash-lite''),
       MkTemp 1, RunAgent 1 (Some (str ''google'')) (str ''gemini-2.5-flash'') (Fin 30000),
       WarnFailed (str ''google/gemini-2.5-flash'')], Inr None)"
  by (simp add: slugCall_def llmCall_def models_envTimeout fallbackModels_envTimeout)
     (simp add: runEvent_def splitProviderModel_def str_def)

text \<open>
  With \<^verbatim>\<open>REFLECTOR_TIMEOUT_MS\<close> set to 10000 the summary call succeeds in a run of 10000 ms
  and the slug call that follows runs with 30000 ms, which is not shorter.
\<close>

theorem slug_timeout_longer_counterexample:
  "summaryThenSlug Fin (\<lambda>k m. AgentReturns (Text (str ''ok'')))
       (\<lambda>s k m. AgentReturns (Text (str ''my-slug''))) (envTimeout (str ''10000'')) =
     (([MkTemp 0, RunAgent 0 (Some (str ''google'')) (str ''gemini-2.5-flash'') (Fin 10000), RmTemp 0,
        LogSucceeded (str ''google/gemini-2.5-flash'')], Inr (Some (str ''ok''))),
      Some ([MkTemp 0, RunAgent 0 (Some (str ''google'')) (str ''gemini-2.5-flash-lite'') (Fin 30000),
             RmTemp 0, LogSucceeded (str ''google/gemini-2.5-flash-lite'')],
            Inr (Some (str ''my-slug'')))) \<and>
   \<not> (30000 < (10000 :: int))"
proof -
  have "summaryCall Fin (\<lambda>k m. AgentReturns (Text (str ''ok''))) (envTimeout (str ''10000'')) =
     ([MkTemp 0, RunAgent 0 (Some (str ''google'')) (str ''gemini-2.5-flash'') (Fin 10000), RmTemp 0,
       LogSucceeded (str ''google/gemini-2.5-flash'')], Inr (Some (str ''ok'')))"
    by (rule summaryCall_ok[OF timeoutMs_10000]) simp
  then show ?thesis by (simp add: summaryThenSlug_def slugCall_ok)
qed

theorem slug_call_timeout_and_candidates_witness:
  "timeouts (fst (fst (summaryThenSlug Fin (\<lambda>k m. AgentReturns (Text (str ''ok'')))
       (\<lambda>s k m. AgentRaises Printable) (envTimeout (str ''60000''))))) = [Fin 60000] \<and>
   (\<exists>evG. snd (summaryThenSlug Fin (\<lambda>k m. AgentReturns (Text (str ''ok'')))
       (\<lambda>s k m. AgentRaises Printable) (envTimeout (str ''60000''))) = Some (evG, Inr None) \<and>
      timeouts evG = [Fin 30000, Fin 30000] \<and>
      attempted evG = [str ''google/gemini-2.5-flash-lite'', str ''google/gemini-2.5-flash''])"
proof -
  let ?e = "envTimeout (str ''60000'')"
  let ?runS = "\<lambda>(k::nat) (m::jsstring). AgentReturns (Text (str ''ok''))"
  let ?runG = "\<lambda>(s::jsstring) (k::nat) (m::jsstring). AgentRaises Printable"
  let ?evS = "[MkTemp 0, RunAgent 0 (Some (str ''google'')) (str ''gemini-2.5-flash'') (Fin 60000), RmTemp 0,
       LogSucceeded (str ''google/gemini-2.5-flash'')]"
  let ?evG = "[MkTemp 0, RunAgent 0 (Some (str ''google'')) (str ''gemini-2.5-flash-lite'') (Fin 30000),
       WarnFailed (str ''google/gemini-2.5-flash-lite''),
       MkTemp 1, RunAgent 1 (Some (str ''google'')) (str ''gemini-2.5-flash'') (Fin 30000),
       WarnFailed (str ''google/gemini-2.5-flash'')]"
  have S: "summaryCall Fin ?runS ?e = (?evS, Inr (Some (str ''ok'')))"
    by (rule summaryCall_ok[OF timeoutMs_60000]) simp
  then have eq: "summaryThenSlug Fin ?runS ?runG ?e = ((?evS, Inr (Some (str ''ok''))), Some (?evG, Inr None))"
    by (simp add: summaryThenSlug_def slugCall_fails)
  from slug_call_timeout_and_candidates[where R = Fin and runS = ?runS and runG = ?runG and e = ?e] eq
  have a: "attempted ?evG = slugModel ?e # summaryModel ?e # fallbackModels ?e" by blast
  have t1: "timeouts ?evS = [Fin 60000]" by (simp add: timeouts_def)
  have t2: "timeouts ?evG = [Fin 30000, Fin 30000]" by (simp add: timeouts_def)
  from a have a': "attempted ?evG = [str ''google/gemini-2.5-flash-lite'', str ''google/gemini-2.5-flash'']"
    by (simp only: models_envTimeout fallbackModels_envTimeout)
  from eq t1 t2 a' show ?thesis by simp
qed

section \<open>The slug\<close>

lemma pad2_digits:
  assumes "0 \<le> n" and "n < 100"
  shows "list_all isDigit (pad2 n)"
proof -
  from assms have "n div 10 \<le> 9" and "n mod 10 \<le> 9" by presburger+
  then have "nat (n div 10) \<le> 9" and "nat (n mod 10) \<le> 9" by simp_all
  then show ?thesis by (simp add: pad2_def isDigit_def)
qed

lemma pad2_length: "length (pad2 n) = 2"
  by (simp add: pad2_def)

lemma first_split: "(case split d s of [] \<Rightarrow> [] | x # xs \<Rightarrow> x) = takeWhile (\<lambda>c. c \<noteq> d) s"
  by (induction s) (auto split: list.splits)

lemma digits_no_dot: "list_all isDigit s \<Longrightarrow> takeWhile (\<lambda>c. c \<noteq> 46) (s @ r) = s @ takeWhile (\<lambda>c. c \<noteq> 46) r"
  by (rule takeWhile_append2) (auto simp: list_all_iff isDigit_def)

lemma digits_no_colon: "list_all isDigit s \<Longrightarrow> filter (\<lambda>c. c \<noteq> 58) s = s"
  by (induction s) (auto simp: isDigit_def)

lemma mod_range: "0 < k \<Longrightarrow> k \<le> 100 \<Longrightarrow> 0 \<le> (t::int) mod k \<and> t mod k < 100"
  using pos_mod_sign[of k t] pos_mod_bound[of k t] by linarith

lemma fallbackSlug_eq:
  "fallbackSlug now = pad2 (now div 3600000 mod 24) @ pad2 (now div 60000 mod 60)"
proof -
  define h where "h = pad2 (now div 3600000 mod 24)"
  define m where "m = pad2 (now div 60000 mod 60)"
  define s where "s = pad2 (now div 1000 mod 60)"
  define r where "r = pad3 (now mod 1000) @ [90]"
  have dh: "list_all isDigit h" and dm: "list_all isDigit m" and ds: "list_all isDigit s"
    unfolding h_def m_def s_def using mod_range by (simp_all add: pad2_digits)
  have len: "length h = 2" "length m = 2" "length s = 2"
    unfolding h_def m_def s_def by (simp_all add: pad2_length)
  have iso: "isoTimeOfDay now = h @ 58 # m @ 58 # s @ 46 # r"
    by (simp add: isoTimeOfDay_def h_def m_def s_def r_def)
  have "takeWhile (\<lambda>c. c \<noteq> 46) (h @ 58 # m @ 58 # s @ 46 # r) = h @ 58 # m @ 58 # s"
    by (simp add: digits_no_dot[OF dh] digits_no_dot[OF dm] digits_no_dot[OF ds])
  then have "fallbackSlug now = take 4 (filter (\<lambda>c. c \<noteq> 58) (h @ 58 # m @ 58 # s))"
    by (simp only: fallbackSlug_def first_split iso)
  also have "\<dots> = take 4 (h @ m @ s)"
    by (simp add: digits_no_colon[OF dh] digits_no_colon[OF dm] digits_no_colon[OF ds])
  also have "\<dots> = h @ m" using len by simp
  finally show ?thesis by (simp only: h_def m_def)
qed

lemma fallbackSlug_length: "length (fallbackSlug now) = 4"
  by (simp add: fallbackSlug_eq pad2_length)

lemma fallbackSlug_digits: "list_all isDigit (fallbackSlug now)"
  using mod_range[of 24 "now div 3600000"] mod_range[of 60 "now div 60000"]
  by (simp add: fallbackSlug_eq pad2_digits)

lemma isDigit_slugUnit: "isDigit c \<Longrightarrow> slugUnit c"
  by (simp add: isDigit_def slugUnit_def)

lemma fallbackSlug_units: "list_all slugUnit (fallbackSlug now)"
  using fallbackSlug_digits[of now] by (auto simp: list_all_iff isDigit_slugUnit)

lemma fallbackSlug_no_colon: "58 \<notin> set (fallbackSlug now)"
  using fallbackSlug_digits[of now] by (auto simp: list_all_iff isDigit_def)

lemma fallbackSlug_minute:
  assumes "now div 60000 = now' div 60000"
  shows "fallbackSlug now = fallbackSlug now'"
proof -
  have "now div 3600000 = now div 60000 div 60" "now' div 3600000 = now' div 60000 div 60"
    by (simp_all add: div_mult2_eq[symmetric])
  with assms show ?thesis by (simp add: fallbackSlug_eq)
qed

lemma replaceOutside_units: "list_all slugUnit (replaceOutside s)"
  by (induction s) (simp_all add: replaceOutside_def slugUnit_def)

lemma set_collapseHyphens: "set (collapseHyphens s) \<subseteq> set s"
  by (induction s rule: collapseHyphens.induct) auto

lemma set_trimHyphens: "set (trimHyphens s) \<subseteq> set s"
  by (auto simp: trimHyphens_def Let_def split: list.splits if_splits dest: in_set_butlastD)

lemma cleanSlug_units: "list_all slugUnit (cleanSlug L s)"
proof -
  let ?r = "replaceOutside (toLowerCase L (trim (stripFences s)))"
  have "set (cleanSlug L s) \<subseteq> set (trimHyphens (collapseHyphens ?r))"
    unfolding cleanSlug_def by (rule set_take_subset)
  also have "\<dots> \<subseteq> set (collapseHyphens ?r)" by (rule set_trimHyphens)
  also have "\<dots> \<subseteq> set ?r" by (rule set_collapseHyphens)
  finally show ?thesis using replaceOutside_units[of "toLowerCase L (trim (stripFences s))"]
    by (auto simp: list_all_iff)
qed

lemma cleanSlug_length: "length (cleanSlug L s) \<le> 40"
  by (simp add: cleanSlug_def)






lemma trimHyphens_dropLead:
  "trimHyphens s = (let s1 = dropLead s in if s1 \<noteq> [] \<and> last s1 = 45 then butlast s1 else s1)"
  by (simp add: trimHyphens_def dropLead_def)












lemma collapse_head: "\<exists>r. collapseHyphens (c # y) = c # r"
  by (induction y arbitrary: c) auto




















lemma finalSlug_None: "finalSlug L now None = fallbackSlug now"
  by (simp add: finalSlug_def)


lemma finalSlug_short: "length (cleanSlug L s) < 3 \<Longrightarrow> finalSlug L now (Some s) = fallbackSlug now"
  by (simp add: finalSlug_def)

lemma finalSlug_long: "3 \<le> length (cleanSlug L s) \<Longrightarrow> s \<noteq> [] \<Longrightarrow> finalSlug L now (Some s) = cleanSlug L s"
  by (auto simp: finalSlug_def)























text \<open>
  Claim C7, as the code has it: the fallback token is 4 characters long, holds no colon,
  consists of digits, and is the UTC hour and minute \<^verbatim>\<open>HHmm\<close> of the current time: two
  times within the same minute give the same token. It is the slug whenever the slug call
  returned \<^verbatim>\<open>null\<close> or the clean-up has fewer than 3 characters.
\<close>

theorem fallback_slug_minute_precision:
  "length (fallbackSlug now) = 4 \<and> 58 \<notin> set (fallbackSlug now) \<and>
   list_all isDigit (fallbackSlug now) \<and>
   fallbackSlug now = pad2 (now div 3600000 mod 24) @ pad2 (now div 60000 mod 60) \<and>
   (now div 60000 = now' div 60000 \<longrightarrow> fallbackSlug now' = fallbackSlug now) \<and>
   finalSlug L now None = fallbackSlug now \<and>
   (length (cleanSlug L s) < 3 \<longrightarrow> finalSlug L now (Some s) = fallbackSlug now)"
  using fallbackSlug_length[of now] fallbackSlug_no_colon[of now] fallbackSlug_digits[of now]
    fallbackSlug_eq[of now] fallbackSlug_minute[of now now'] finalSlug_None[of L now]
    finalSlug_short[of L s now]
  by simp

theorem fallback_slug_minute_precision_witness:
  "fallbackSlug 45296789 = str ''1234'' \<and> fallbackSlug 45240000 = str ''1234'' \<and>
   finalSlug id 45296789 None = str ''1234''"
proof -
  note T = fallback_slug_minute_precision[of 45296789 45240000 id "[]"]
  from T have e: "fallbackSlug 45296789 = pad2 (45296789 div 3600000 mod 24) @ pad2 (45296789 div 60000 mod 60)"
    by blast
  then have 1: "fallbackSlug 45296789 = str ''1234''" by (simp add: pad2_def str_def)
  have "(45296789 :: int) div 60000 = 45240000 div 60000" by simp
  with T have "fallbackSlug 45240000 = fallbackSlug 45296789" by blast
  with 1 have 2: "fallbackSlug 45240000 = str ''1234''" by simp
  from T 1 have 3: "finalSlug id 45296789 None = str ''1234''" by simp
  from 1 2 3 show ?thesis by simp
qed

text \<open>
  The times 00:00:00 and 00:00:59 differ in their seconds and give the same token: the
  token has no seconds precision.
\<close>

theorem fallback_slug_drops_seconds_counterexample:
  "fallbackSlug 0 = str ''0000'' \<and> fallbackSlug 59000 = str ''0000'' \<and>
   isoTimeOfDay 0 = str ''00:00:00.000Z'' \<and> isoTimeOfDay 59000 = str ''00:00:59.000Z''"
  by (simp add: fallbackSlug_eq isoTimeOfDay_def pad2_def pad3_def str_def)

text \<open>
  Claim C10: for every text the model returns (or none), every current time and every
  case table, the slug the handler ends with has between 3 and 40 characters, each a
  lowercase letter, a digit or a hyphen.
\<close>

theorem final_slug_invariant:
  "3 \<le> length (finalSlug L now slug) \<and> length (finalSlug L now slug) \<le> 40 \<and>
   list_all slugUnit (finalSlug L now slug)"
  by (auto simp: finalSlug_def Let_def fallbackSlug_length fallbackSlug_units cleanSlug_units cleanSlug_length
      split: option.splits)

theorem final_slug_invariant_witness:
  "finalSlug id 0 (Some (str ''aaaaaaaaaaaaaaaaaaaaaaaaaaaaaaaaaaaaaaa-bc'')) =
     str ''aaaaaaaaaaaaaaaaaaaaaaaaaaaaaaaaaaaaaaa-'' \<and>
   length (finalSlug id 0 (Some (str ''aaaaaaaaaaaaaaaaaaaaaaaaaaaaaaaaaaaaaaa-bc''))) = 40 \<and>
   list_all slugUnit (finalSlug id 0 (Some (str ''aaaaaaaaaaaaaaaaaaaaaaaaaaaaaaaaaaaaaaa-bc'')))"
proof -
  have c: "cleanSlug id (str ''aaaaaaaaaaaaaaaaaaaaaaaaaaaaaaaaaaaaaaa-bc'') =
     str ''aaaaaaaaaaaaaaaaaaaaaaaaaaaaaaaaaaaaaaa-''"
    by (simp add: cleanSlug_def str_def trim_def trimStart_def trimEnd_def isWhiteSpace_def
      toLowerCase_def isAscii_def lowerUnit_def replaceOutside_def slugUnit_def trimHyphens_def)
  have l: "length (str ''aaaaaaaaaaaaaaaaaaaaaaaaaaaaaaaaaaaaaaa-'') = 40" by (simp add: str_def)
  have n: "str ''aaaaaaaaaaaaaaaaaaaaaaaaaaaaaaaaaaaaaaa-bc'' \<noteq> []" by (simp add: str_def)
  have f: "finalSlug id 0 (Some (str ''aaaaaaaaaaaaaaaaaaaaaaaaaaaaaaaaaaaaaaa-bc'')) =
     str ''aaaaaaaaaaaaaaaaaaaaaaaaaaaaaaaaaaaaaaa-''"
    using finalSlug_long[of id "str ''aaaaaaaaaaaaaaaaaaaaaaaaaaaaaaaaaaaaaaa-bc''" 0] n
    by (simp add: c l)
  from final_slug_invariant[of id 0 "Some (str ''aaaaaaaaaaaaaaaaaaaaaaaaaaaaaaaaaaaaaaa-bc'')"]
  have "list_all slugUnit (finalSlug id 0 (Some (str ''aaaaaaaaaaaaaaaaaaaaaaaaaaaaaaaaaaaaaaa-bc'')))"
    by blast
  with f l show ?thesis by simp
qed

lemma collapse_no_double: "collapseHyphens y \<noteq> 45 # 45 # r"
proof (induction y arbitrary: r rule: collapseHyphens.induct)
  case (1 a b cs)
  show ?case
  proof (cases "a = 45 \<and> b = 45")
    case True
    with 1(1)[of r] show ?thesis by simp
  next
    case False
    from collapse_head[of b cs] obtain q where q: "collapseHyphens (b # cs) = b # q" by blast
    with False show ?thesis by auto
  qed
qed simp_all

lemma dropLead_hyphen: "dropLead s = 45 # r \<Longrightarrow> s = 45 # 45 # r"
  by (auto simp: dropLead_def split: list.splits if_splits)

lemma trimHyphens_head: "trimHyphens s = c # r \<Longrightarrow> \<exists>q. dropLead s = c # q"
  by (cases "dropLead s") (auto simp: trimHyphens_dropLead Let_def split: if_splits)

lemma cleanSlug_no_leading_hyphen: "cleanSlug L s = c # r \<Longrightarrow> c \<noteq> 45"
proof
  assume h: "cleanSlug L s = c # r" and c: "c = 45"
  let ?y = "replaceOutside (toLowerCase L (trim (stripFences s)))"
  from h obtain r' where "trimHyphens (collapseHyphens ?y) = c # r'"
    unfolding cleanSlug_def by (cases "trimHyphens (collapseHyphens ?y)") auto
  from trimHyphens_head[OF this] c obtain q where "dropLead (collapseHyphens ?y) = 45 # q" by blast
  from dropLead_hyphen[OF this] collapse_no_double[of ?y q] show False by simp
qed

lemma fallbackSlug_no_hyphen: "45 \<notin> set (fallbackSlug now)"
  using fallbackSlug_digits[of now] by (auto simp: list_all_iff isDigit_def)

lemma final_slug_no_leading_hyphen: "hd (finalSlug L now slug) \<noteq> 45"
proof -
  have f: "hd (fallbackSlug now) \<noteq> 45"
    using fallbackSlug_no_hyphen[of now] fallbackSlug_length[of now]
    by (cases "fallbackSlug now") auto
  have c: "\<And>s. 3 \<le> length (cleanSlug L s) \<Longrightarrow> hd (cleanSlug L s) \<noteq> 45"
  proof -
    fix s assume "3 \<le> length (cleanSlug L s)"
    then obtain a r where "cleanSlug L s = a # r" by (cases "cleanSlug L s") auto
    with cleanSlug_no_leading_hyphen[of L s a r] show "hd (cleanSlug L s) \<noteq> 45" by simp
  qed
  show ?thesis
  proof (cases slug)
    case None
    with f show ?thesis by (simp add: finalSlug_def)
  next
    case (Some s)
    show ?thesis
    proof (cases "3 \<le> length (cleanSlug L s) \<and> s \<noteq> []")
      case True
      with c[of s] Some show ?thesis by (simp add: finalSlug_long)
    next
      case False
      with f Some show ?thesis by (auto simp: finalSlug_def)
    qed
  qed
qed

section \<open>Saving the summary\<close>

lemma probe_free: "\<not> taken i \<Longrightarrow> probe taken i = Some i"
  by (subst probe.simps) simp

lemma probe_taken: "taken i \<Longrightarrow> probe taken i = probe taken (Suc i)"
  by (subst probe.simps) simp

lemma probe_sound:
  assumes "probe taken i = Some y"
  shows "\<not> taken y \<and> i \<le> y \<and> (\<forall>j. i \<le> j \<and> j < y \<longrightarrow> taken j)"
proof (rule probe.raw_induct[where P = "\<lambda>taken i y. \<not> taken y \<and> i \<le> y \<and> (\<forall>j. i \<le> j \<and> j < y \<longrightarrow> taken j)", OF _ assms])
  fix probe' :: "(nat \<Rightarrow> bool) \<Rightarrow> nat \<Rightarrow> nat option" and tk k r
  assume ih: "\<And>a b c. probe' a b = Some c \<Longrightarrow> \<not> a c \<and> b \<le> c \<and> (\<forall>j. b \<le> j \<and> j < c \<longrightarrow> a j)"
    and step: "(if tk k then probe' tk (Suc k) else Some k) = Some r"
  show "\<not> tk r \<and> k \<le> r \<and> (\<forall>j. k \<le> j \<and> j < r \<longrightarrow> tk j)"
  proof (cases "tk k")
    case True
    with step have "probe' tk (Suc k) = Some r" by simp
    from ih[OF this] have a: "\<not> tk r" and b: "Suc k \<le> r" and c: "\<forall>j. Suc k \<le> j \<and> j < r \<longrightarrow> tk j"
      by blast+
    have "\<forall>j. k \<le> j \<and> j < r \<longrightarrow> tk j"
    proof (intro allI impI)
      fix j assume "k \<le> j \<and> j < r"
      then have "j = k \<or> (Suc k \<le> j \<and> j < r)" by arith
      with True c show "tk j" by blast
    qed
    with a b show ?thesis by simp
  next
    case False
    with step show ?thesis by auto
  qed
qed

lemma probe_all_taken: "probe (\<lambda>i. True) i = None"
proof (cases "probe (\<lambda>i. True) i")
  case None then show ?thesis .
next
  case (Some y)
  from probe_sound[OF this] show ?thesis by simp
qed

lemma probe_within: "\<not> taken (i + d) \<Longrightarrow> \<exists>y. probe taken i = Some y \<and> y \<le> i + d"
proof (induction d arbitrary: i)
  case 0
  then show ?case by (simp add: probe_free)
next
  case (Suc d)
  show ?case
  proof (cases "taken i")
    case False
    then show ?thesis by (simp add: probe_free)
  next
    case True
    from Suc.prems have "\<not> taken (Suc i + d)" by simp
    from Suc.IH[OF this] obtain y where "probe taken (Suc i) = Some y" "y \<le> Suc i + d" by blast
    with True show ?thesis by (simp add: probe_taken)
  qed
qed

lemma probe_complete: "\<not> taken j \<Longrightarrow> i \<le> j \<Longrightarrow> \<exists>y. probe taken i = Some y \<and> y \<le> j"
  using probe_within[of taken i "j - i"] by simp

lemma digitsValue_snoc: "digitsValue (xs @ [c]) = 10 * digitsValue xs + int (c - 48)"
  by (simp add: digitsValue_def)

lemma digitsValue_showNat: "digitsValue (showNat n) = int n"
proof (induction n rule: showNat.induct)
  case (1 n)
  show ?case
  proof (cases "n < 10")
    case True
    then show ?thesis by (subst showNat.simps) (simp add: digitsValue_def)
  next
    case False
    with 1 have "digitsValue (showNat (n div 10)) = int (n div 10)" by simp
    moreover have "10 * int (n div 10) + int (n mod 10) = int n"
      by (simp add: zdiv_int zmod_int)
    ultimately show ?thesis using False
      by (subst showNat.simps) (simp add: digitsValue_snoc)
  qed
qed

lemma showNat_inj:
  assumes "showNat i = showNat j"
  shows "i = j"
proof -
  have "int i = digitsValue (showNat i)" by (simp only: digitsValue_showNat)
  also have "\<dots> = digitsValue (showNat j)" by (simp only: assms)
  also have "\<dots> = int j" by (simp only: digitsValue_showNat)
  finally show ?thesis by simp
qed

lemma altName_inj: "altName date slug i = altName date slug j \<Longrightarrow> i = j"
  by (auto simp: altName_def dest: showNat_inj)

lemma free_suffix:
  assumes "finite (dom dir)"
  shows "\<exists>j. 2 \<le> j \<and> j \<le> card (dom dir) + 2 \<and> dir (altName date slug j) = None"
proof (rule ccontr)
  assume "\<not> ?thesis"
  then have sub: "altName date slug ` {2..card (dom dir) + 2} \<subseteq> dom dir" by auto
  have "inj_on (altName date slug) {2..card (dom dir) + 2}"
    by (auto simp: inj_on_def dest: altName_inj)
  then have "card (altName date slug ` {2..card (dom dir) + 2}) = card (dom dir) + 1"
    by (simp add: card_image)
  with card_mono[OF assms sub] show False by simp
qed

lemma finalPath_total:
  assumes "finite (dom dir)"
  shows "\<exists>p. finalPath dir date slug = Some p \<and> dir p = None \<and>
     (p = baseName date slug \<or>
      (\<exists>i. 2 \<le> i \<and> i \<le> card (dom dir) + 2 \<and> p = altName date slug i \<and>
           dir (baseName date slug) \<noteq> None \<and>
           (\<forall>j. 2 \<le> j \<and> j < i \<longrightarrow> dir (altName date slug j) \<noteq> None)))"
proof (cases "dir (baseName date slug) = None")
  case True
  then show ?thesis by (simp add: finalPath_def)
next
  case False
  from free_suffix[OF assms, of date slug] obtain j where
    j: "2 \<le> j" "j \<le> card (dom dir) + 2" "dir (altName date slug j) = None" by blast
  let ?taken = "\<lambda>i. dir (altName date slug i) \<noteq> None"
  from j have "\<not> ?taken j" by simp
  from probe_complete[of ?taken j 2, OF this j(1)] obtain y where
    y: "probe ?taken 2 = Some y" "y \<le> j" by blast
  from probe_sound[OF y(1)] have s: "\<not> ?taken y" "2 \<le> y" "\<forall>j. 2 \<le> j \<and> j < y \<longrightarrow> ?taken j"
    by blast+
  from False y(1) have "finalPath dir date slug = Some (altName date slug y)"
    by (simp add: finalPath_def)
  with s y(2) j(2) False show ?thesis by auto
qed

lemma showNat_2: "showNat 2 = [50]"
  by (subst showNat.simps) simp

lemma showNat_3: "showNat 3 = [51]"
  by (subst showNat.simps) simp

lemma base_ne_alt: "baseName date slug \<noteq> altName date slug i"
  by (simp add: baseName_def altName_def str_def)

lemma alt_ne_base: "altName date slug i \<noteq> baseName date slug"
  by (simp add: baseName_def altName_def str_def)

lemma alt_eq_iff: "altName date slug i = altName date slug j \<longleftrightarrow> i = j"
  using altName_inj by blast

lemma finalPath_base: "dir (baseName date slug) = None \<Longrightarrow> finalPath dir date slug = Some (baseName date slug)"
  by (simp add: finalPath_def)

lemma finalPath_2:
  "dir (baseName date slug) \<noteq> None \<Longrightarrow> dir (altName date slug 2) = None \<Longrightarrow>
     finalPath dir date slug = Some (altName date slug 2)"
  by (simp add: finalPath_def probe_free)

lemma finalPath_3:
  "dir (baseName date slug) \<noteq> None \<Longrightarrow> dir (altName date slug 2) \<noteq> None \<Longrightarrow>
   dir (altName date slug 3) = None \<Longrightarrow> finalPath dir date slug = Some (altName date slug 3)"
proof -
  assume b: "dir (baseName date slug) \<noteq> None" and t: "dir (altName date slug 2) \<noteq> None"
    and f: "dir (altName date slug 3) = None"
  let ?taken = "\<lambda>i. dir (altName date slug i) \<noteq> None"
  have "probe ?taken 2 = probe ?taken (Suc 2)" using t by (intro probe_taken) simp
  also have "Suc 2 = (3::nat)" by simp
  also have "probe ?taken 3 = Some 3" using f by (intro probe_free) simp
  finally show ?thesis using b by (simp add: finalPath_def)
qed

lemma saveSummary_path:
  "finalPath dir date slug = Some p \<Longrightarrow>
     saveSummary dir date session slug summary = Some (p, dir(p \<mapsto> document date session slug summary))"
  by (simp add: saveSummary_def)

lemma taken_crowded:
  "crowded date slug n (altName date slug i) \<noteq> None \<longleftrightarrow> 2 \<le> i \<and> i < n"
  by (auto simp: crowded_def alt_ne_base alt_eq_iff)

lemma finite_crowded: "finite (dom (crowded date slug n))"
proof (rule finite_subset)
  show "dom (crowded date slug n) \<subseteq> set (baseName date slug # map (altName date slug) [2..<n])"
    by (auto simp: crowded_def dom_def split: if_splits)
qed simp

lemma finalPath_crowded:
  assumes "2 \<le> n"
  shows "finalPath (crowded date slug n) date slug = Some (altName date slug n)"
proof -
  let ?taken = "\<lambda>i. crowded date slug n (altName date slug i) \<noteq> None"
  have b: "crowded date slug n (baseName date slug) \<noteq> None" by (simp add: crowded_def)
  have "\<not> ?taken n" by (simp only: taken_crowded) simp
  from probe_complete[of ?taken n 2, OF this assms] obtain y where
    y: "probe ?taken 2 = Some y" "y \<le> n" by blast
  from probe_sound[OF y(1)] have "\<not> ?taken y" "2 \<le> y" by blast+
  then have "n \<le> y" by (simp only: taken_crowded) simp
  with y have "probe ?taken 2 = Some n" by simp
  with b show ?thesis by (simp add: finalPath_def)
qed

text \<open>
  Claim C8, as the code has it: the loop \<^verbatim>\<open>while (true)\<close> has no upper bound of its own and no
  failure exit. On every directory (a directory holds finitely many files) it terminates:
  the path is the base name when that is unused, and otherwise the first unused suffix
  from 2 on, which is at most the number of files plus 2; the path found is unused.
\<close>

theorem finalPath_first_free_suffix:
  assumes "finite (dom dir)"
  shows "\<exists>p. finalPath dir date slug = Some p \<and> dir p = None \<and>
     (p = baseName date slug \<or>
      (\<exists>i. 2 \<le> i \<and> i \<le> card (dom dir) + 2 \<and> p = altName date slug i \<and>
           dir (baseName date slug) \<noteq> None \<and>
           (\<forall>j. 2 \<le> j \<and> j < i \<longrightarrow> dir (altName date slug j) \<noteq> None)))"
  using assms by (rule finalPath_total)

theorem finalPath_first_free_suffix_witness:
  "finite (dom [baseName (str ''2026-02-04'') (str ''ab'') \<mapsto> [], altName (str ''2026-02-04'') (str ''ab'') 2 \<mapsto> []]) \<and>
   finalPath [baseName (str ''2026-02-04'') (str ''ab'') \<mapsto> [], altName (str ''2026-02-04'') (str ''ab'') 2 \<mapsto> []]
     (str ''2026-02-04'') (str ''ab'') = Some (altName (str ''2026-02-04'') (str ''ab'') 3) \<and>
   altName (str ''2026-02-04'') (str ''ab'') 3 = str ''2026-02-04-reflector-ab-3.md''"
proof -
  let ?D = "str ''2026-02-04''" and ?S = "str ''ab''"
  let ?dir = "[baseName ?D ?S \<mapsto> [], altName ?D ?S 2 \<mapsto> ([]::jsstring)]"
  have f: "finite (dom ?dir)" by simp
  have b: "?dir (baseName ?D ?S) \<noteq> None" by (simp add: base_ne_alt)
  have t2: "?dir (altName ?D ?S 2) \<noteq> None" by simp
  have t3: "?dir (altName ?D ?S 3) = None" by (simp add: alt_ne_base alt_eq_iff)
  from finalPath_first_free_suffix[OF f, of ?D ?S] obtain p where
    p: "finalPath ?dir ?D ?S = Some p" "?dir p = None"
    and c: "p = baseName ?D ?S \<or>
      (\<exists>i. 2 \<le> i \<and> i \<le> card (dom ?dir) + 2 \<and> p = altName ?D ?S i \<and>
           ?dir (baseName ?D ?S) \<noteq> None \<and>
           (\<forall>j. 2 \<le> j \<and> j < i \<longrightarrow> ?dir (altName ?D ?S j) \<noteq> None))" by blast
  from p(2) b have "p \<noteq> baseName ?D ?S" by auto
  with c obtain i where i: "2 \<le> i" "p = altName ?D ?S i"
    "\<forall>j. 2 \<le> j \<and> j < i \<longrightarrow> ?dir (altName ?D ?S j) \<noteq> None" by blast
  have le: "2 \<le> (3::nat)" by simp
  from i(3) have "2 \<le> (3::nat) \<and> 3 < i \<longrightarrow> ?dir (altName ?D ?S 3) \<noteq> None" by (rule spec)
  with le t3 have "\<not> 3 < i" by blast
  moreover from p(2) i(2) t2 have "i \<noteq> 2" by blast
  ultimately have "i = 3" using i(1) by simp
  with p(1) i(2) have 1: "finalPath ?dir ?D ?S = Some (altName ?D ?S 3)" by simp
  have 2: "altName ?D ?S 3 = str ''2026-02-04-reflector-ab-3.md''"
    by (simp add: altName_def showNat_3 str_def)
  from f 1 2 show ?thesis by simp
qed

text \<open>
  No number bounds the suffix the loop ends with: a directory holding the base name and
  the suffixes 2 to \<open>B + 1\<close> sends it to \<open>B + 2\<close>. And were every suffix taken, the loop would
  run forever rather than fail.
\<close>

theorem probe_unbounded_counterexample:
  "\<not> (\<exists>B. \<forall>dir. finite (dom dir) \<longrightarrow>
        (\<forall>i. finalPath dir (str ''2026-02-04'') (str ''ab'') =
               Some (altName (str ''2026-02-04'') (str ''ab'') i) \<longrightarrow> i \<le> B)) \<and>
   probe (\<lambda>i. True) 2 = None"
proof -
  let ?D = "str ''2026-02-04''" and ?S = "str ''ab''"
  have "\<not> (\<exists>B. \<forall>dir. finite (dom dir) \<longrightarrow>
        (\<forall>i. finalPath dir ?D ?S = Some (altName ?D ?S i) \<longrightarrow> i \<le> B))"
  proof
    assume "\<exists>B. \<forall>dir. finite (dom dir) \<longrightarrow>
        (\<forall>i. finalPath dir ?D ?S = Some (altName ?D ?S i) \<longrightarrow> i \<le> B)"
    then obtain B where B: "\<forall>dir. finite (dom dir) \<longrightarrow>
        (\<forall>i. finalPath dir ?D ?S = Some (altName ?D ?S i) \<longrightarrow> i \<le> B)" by blast
    have "finalPath (crowded ?D ?S (B + 2)) ?D ?S = Some (altName ?D ?S (B + 2))"
      by (rule finalPath_crowded) simp
    with B finite_crowded[of ?D ?S "B + 2"] have "B + 2 \<le> B" by blast
    then show False by simp
  qed
  with probe_all_taken[of 2] show ?thesis by simp
qed

lemma finalPath_first_unused:
  assumes "finite (dom dir)"
  shows "\<exists>p. finalPath dir date slug = Some p \<and> dir p = None \<and>
     (dir (baseName date slug) = None \<longrightarrow> p = baseName date slug) \<and>
     (dir (baseName date slug) \<noteq> None \<longrightarrow>
        (\<exists>i. 2 \<le> i \<and> p = altName date slug i \<and>
             (\<forall>j. 2 \<le> j \<and> j < i \<longrightarrow> dir (altName date slug j) \<noteq> None)))"
proof (cases "dir (baseName date slug) = None")
  case True
  then have "finalPath dir date slug = Some (baseName date slug)" by (rule finalPath_base)
  with True show ?thesis by simp
next
  case False
  from finalPath_total[OF assms, of date slug] obtain p where
    p: "finalPath dir date slug = Some p" and n: "dir p = None"
    and c: "p = baseName date slug \<or>
      (\<exists>i. 2 \<le> i \<and> i \<le> card (dom dir) + 2 \<and> p = altName date slug i \<and>
           dir (baseName date slug) \<noteq> None \<and>
           (\<forall>j. 2 \<le> j \<and> j < i \<longrightarrow> dir (altName date slug j) \<noteq> None))" by blast
  from n False have "p \<noteq> baseName date slug" by auto
  with c obtain i where i: "2 \<le> i" "p = altName date slug i"
    "\<forall>j. 2 \<le> j \<and> j < i \<longrightarrow> dir (altName date slug j) \<noteq> None" by blast
  from i have "\<exists>i. 2 \<le> i \<and> p = altName date slug i \<and>
             (\<forall>j. 2 \<le> j \<and> j < i \<longrightarrow> dir (altName date slug j) \<noteq> None)"
    by (intro exI[of _ i] conjI)
  then have b: "dir (baseName date slug) \<noteq> None \<longrightarrow>
        (\<exists>i. 2 \<le> i \<and> p = altName date slug i \<and>
             (\<forall>j. 2 \<le> j \<and> j < i \<longrightarrow> dir (altName date slug j) \<noteq> None))" by (rule impI)
  from False have a: "dir (baseName date slug) = None \<longrightarrow> p = baseName date slug" by blast
  show ?thesis by (rule exI[of _ p], intro conjI) (rule p n a b)+
qed

text \<open>
  Claim C3, as the code has it. The writes are taken one after the other: nothing else
  changes the directory between the probe of a write and its \<^verbatim>\<open>writeFile\<close>. On every
  directory a write resolves to the first unused name of the sequence base name, suffix
  -2, suffix -3, ...: to the base name when that is unused, and otherwise to the suffix
  \<open>i\<close> from 2 on such that every suffix from 2 below \<open>i\<close> is in use; it returns that path (a
  collision is no error) and leaves every file that was there as it was. Into a directory
  that holds none of the three names beforehand, three writes of one date and slug
  resolve to the base name, the suffix -2 and the suffix -3, three distinct paths.
\<close>

theorem three_writes_take_base_2_3:
  assumes "finite (dom dir)"
  shows "(\<exists>p. finalPath dir date slug = Some p \<and> dir p = None \<and>
            saveSummary dir date session slug summary =
              Some (p, dir(p \<mapsto> document date session slug summary)) \<and>
            (\<forall>q. dir q \<noteq> None \<longrightarrow> (dir(p \<mapsto> document date session slug summary)) q = dir q) \<and>
            (dir (baseName date slug) = None \<longrightarrow> p = baseName date slug) \<and>
            (dir (baseName date slug) \<noteq> None \<longrightarrow>
               (\<exists>i. 2 \<le> i \<and> p = altName date slug i \<and>
                    (\<forall>j. 2 \<le> j \<and> j < i \<longrightarrow> dir (altName date slug j) \<noteq> None)))) \<and>
         (dir (baseName date slug) = None \<and> dir (altName date slug 2) = None \<and>
          dir (altName date slug 3) = None \<longrightarrow>
            (\<exists>d1 d2 d3.
               saveSummary dir date session slug summary = Some (baseName date slug, d1) \<and>
               saveSummary d1 date session' slug summary' = Some (altName date slug 2, d2) \<and>
               saveSummary d2 date session'' slug summary'' = Some (altName date slug 3, d3)) \<and>
            distinct [baseName date slug, altName date slug 2, altName date slug 3])"
proof -
  from finalPath_first_unused[OF assms, of date slug] obtain p where
    all: "finalPath dir date slug = Some p \<and> dir p = None \<and>
     (dir (baseName date slug) = None \<longrightarrow> p = baseName date slug) \<and>
     (dir (baseName date slug) \<noteq> None \<longrightarrow>
        (\<exists>i. 2 \<le> i \<and> p = altName date slug i \<and>
             (\<forall>j. 2 \<le> j \<and> j < i \<longrightarrow> dir (altName date slug j) \<noteq> None)))" by (rule exE)
  note p = conjunct1[OF all] conjunct1[OF conjunct2[OF all]]
  note f1 = conjunct1[OF conjunct2[OF conjunct2[OF all]]]
  note f2 = conjunct2[OF conjunct2[OF conjunct2[OF all]]]
  have keep: "\<forall>q. dir q \<noteq> None \<longrightarrow> (dir(p \<mapsto> document date session slug summary)) q = dir q"
    using p(2) by auto
  note s = saveSummary_path[OF p(1), of session summary]
  have 1: "\<exists>p. finalPath dir date slug = Some p \<and> dir p = None \<and>
            saveSummary dir date session slug summary =
              Some (p, dir(p \<mapsto> document date session slug summary)) \<and>
            (\<forall>q. dir q \<noteq> None \<longrightarrow> (dir(p \<mapsto> document date session slug summary)) q = dir q) \<and>
            (dir (baseName date slug) = None \<longrightarrow> p = baseName date slug) \<and>
            (dir (baseName date slug) \<noteq> None \<longrightarrow>
               (\<exists>i. 2 \<le> i \<and> p = altName date slug i \<and>
                    (\<forall>j. 2 \<le> j \<and> j < i \<longrightarrow> dir (altName date slug j) \<noteq> None)))"
    by (rule exI[of _ p], intro conjI) (rule p s keep f1 f2)+
  have 2: "dir (baseName date slug) = None \<and> dir (altName date slug 2) = None \<and>
          dir (altName date slug 3) = None \<longrightarrow>
            (\<exists>d1 d2 d3.
               saveSummary dir date session slug summary = Some (baseName date slug, d1) \<and>
               saveSummary d1 date session' slug summary' = Some (altName date slug 2, d2) \<and>
               saveSummary d2 date session'' slug summary'' = Some (altName date slug 3, d3)) \<and>
            distinct [baseName date slug, altName date slug 2, altName date slug 3]"
  proof
    assume a: "dir (baseName date slug) = None \<and> dir (altName date slug 2) = None \<and>
          dir (altName date slug 3) = None"
    let ?d1 = "dir(baseName date slug \<mapsto> document date session slug summary)"
    let ?d2 = "?d1(altName date slug 2 \<mapsto> document date session' slug summary')"
    let ?d3 = "?d2(altName date slug 3 \<mapsto> document date session'' slug summary'')"
    from a have w1: "saveSummary dir date session slug summary = Some (baseName date slug, ?d1)"
      by (intro saveSummary_path finalPath_base) simp
    have "finalPath ?d1 date slug = Some (altName date slug 2)"
      using a by (intro finalPath_2) (simp_all add: alt_ne_base)
    then have w2: "saveSummary ?d1 date session' slug summary' = Some (altName date slug 2, ?d2)"
      by (rule saveSummary_path)
    have "finalPath ?d2 date slug = Some (altName date slug 3)"
      using a by (intro finalPath_3) (simp_all add: alt_ne_base base_ne_alt alt_eq_iff)
    then have w3: "saveSummary ?d2 date session'' slug summary'' = Some (altName date slug 3, ?d3)"
      by (rule saveSummary_path)
    have "distinct [baseName date slug, altName date slug 2, altName date slug 3]"
      by (simp add: base_ne_alt alt_eq_iff)
    with w1 w2 w3 show "(\<exists>d1 d2 d3.
               saveSummary dir date session slug summary = Some (baseName date slug, d1) \<and>
               saveSummary d1 date session' slug summary' = Some (altName date slug 2, d2) \<and>
               saveSummary d2 date session'' slug summary'' = Some (altName date slug 3, d3)) \<and>
            distinct [baseName date slug, altName date slug 2, altName date slug 3]"
      by blast
  qed
  from 1 2 show ?thesis by (rule conjI)
qed

lemma names_abc:
  "baseName (str ''2026-02-04'') (str ''abc'') = str ''2026-02-04-reflector-abc.md''"
  "altName (str ''2026-02-04'') (str ''abc'') 2 = str ''2026-02-04-reflector-abc-2.md''"
  "altName (str ''2026-02-04'') (str ''abc'') 3 = str ''2026-02-04-reflector-abc-3.md''"
  "baseName (str ''2026-02-04'') (str ''abc-2'') = str ''2026-02-04-reflector-abc-2.md''"
  by (simp_all add: baseName_def altName_def showNat_2 showNat_3 str_def)

theorem three_writes_take_base_2_3_witness:
  "(\<exists>d1 d2 d3.
     saveSummary Map.empty (str ''2026-02-04'') [] (str ''abc'') [] =
       Some (str ''2026-02-04-reflector-abc.md'', d1) \<and>
     saveSummary d1 (str ''2026-02-04'') [] (str ''abc'') [] =
       Some (str ''2026-02-04-reflector-abc-2.md'', d2) \<and>
     saveSummary d2 (str ''2026-02-04'') [] (str ''abc'') [] =
       Some (str ''2026-02-04-reflector-abc-3.md'', d3)) \<and>
   finalPath [str ''2026-02-04-reflector-abc.md'' \<mapsto> [], str ''2026-02-04-reflector-abc-2.md'' \<mapsto> []]
     (str ''2026-02-04'') (str ''abc'') = Some (str ''2026-02-04-reflector-abc-3.md'')"
proof -
  let ?D = "str ''2026-02-04''" and ?S = "str ''abc''"
  have f: "finite (dom (Map.empty :: directory))" by simp
  have n: "(Map.empty :: directory) (baseName ?D ?S) = None \<and>
           (Map.empty :: directory) (altName ?D ?S 2) = None \<and>
           (Map.empty :: directory) (altName ?D ?S 3) = None" by simp
  from mp[OF conjunct2[OF three_writes_take_base_2_3[OF f, of ?D ?S "[]" "[]" "[]" "[]" "[]" "[]"]] n]
  have "\<exists>d1 d2 d3.
     saveSummary Map.empty ?D [] ?S [] = Some (baseName ?D ?S, d1) \<and>
     saveSummary d1 ?D [] ?S [] = Some (altName ?D ?S 2, d2) \<and>
     saveSummary d2 ?D [] ?S [] = Some (altName ?D ?S 3, d3)" by (rule conjunct1)
  then have 1: "\<exists>d1 d2 d3.
     saveSummary Map.empty ?D [] ?S [] = Some (str ''2026-02-04-reflector-abc.md'', d1) \<and>
     saveSummary d1 ?D [] ?S [] = Some (str ''2026-02-04-reflector-abc-2.md'', d2) \<and>
     saveSummary d2 ?D [] ?S [] = Some (str ''2026-02-04-reflector-abc-3.md'', d3)"
    by (simp only: names_abc)
  let ?dir = "[baseName ?D ?S \<mapsto> [], altName ?D ?S 2 \<mapsto> ([]::jsstring)]"
  have g: "finite (dom ?dir)" by simp
  have b: "?dir (baseName ?D ?S) \<noteq> None" by (simp add: base_ne_alt)
  have t2: "?dir (altName ?D ?S 2) \<noteq> None" by simp
  have t3: "?dir (altName ?D ?S 3) = None" by (simp add: alt_ne_base alt_eq_iff)
  from conjunct1[OF three_writes_take_base_2_3[OF g, of ?D ?S "[]" "[]" "[]" "[]" "[]" "[]"]]
  obtain p where all: "finalPath ?dir ?D ?S = Some p \<and> ?dir p = None \<and>
       saveSummary ?dir ?D [] ?S [] = Some (p, ?dir(p \<mapsto> document ?D [] ?S [])) \<and>
       (\<forall>q. ?dir q \<noteq> None \<longrightarrow> (?dir(p \<mapsto> document ?D [] ?S [])) q = ?dir q) \<and>
       (?dir (baseName ?D ?S) = None \<longrightarrow> p = baseName ?D ?S) \<and>
       (?dir (baseName ?D ?S) \<noteq> None \<longrightarrow>
         (\<exists>i. 2 \<le> i \<and> p = altName ?D ?S i \<and>
            (\<forall>j. 2 \<le> j \<and> j < i \<longrightarrow> ?dir (altName ?D ?S j) \<noteq> None)))" by (rule exE)
  note p = conjunct1[OF all] conjunct1[OF conjunct2[OF all]]
  note c = conjunct2[OF conjunct2[OF conjunct2[OF conjunct2[OF conjunct2[OF all]]]]]
  from mp[OF c b] obtain i where i: "2 \<le> i" "p = altName ?D ?S i"
    "\<forall>j. 2 \<le> j \<and> j < i \<longrightarrow> ?dir (altName ?D ?S j) \<noteq> None" by blast
  have le: "2 \<le> (3::nat)" by simp
  from i(3) have "2 \<le> (3::nat) \<and> 3 < i \<longrightarrow> ?dir (altName ?D ?S 3) \<noteq> None" by (rule spec)
  with le t3 have "\<not> 3 < i" by blast
  moreover from p(2) i(2) t2 have "i \<noteq> 2" by blast
  ultimately have "i = 3" using i(1) by simp
  with p(1) i(2) have "finalPath ?dir ?D ?S = Some (altName ?D ?S 3)" by simp
  then have 2: "finalPath [str ''2026-02-04-reflector-abc.md'' \<mapsto> [], str ''2026-02-04-reflector-abc-2.md'' \<mapsto> []]
     ?D ?S = Some (str ''2026-02-04-reflector-abc-3.md'')"
    by (simp only: names_abc)
  from 1 2 show ?thesis by (rule conjI)
qed

text \<open>
  The slugs \<^verbatim>\<open>abc\<close> and \<^verbatim>\<open>abc-2\<close> are both slugs the handler can end with. Starting from the
  empty directory, a write with the slug \<^verbatim>\<open>abc-2\<close> makes the file that is also the -2 name
  of the slug \<^verbatim>\<open>abc\<close>; of the two writes with the slug \<^verbatim>\<open>abc\<close> that follow, the first takes
  the base name and the second the suffix -3, not -2.
\<close>

theorem second_write_takes_3_counterexample:
  "finalSlug id 0 (Some (str ''abc-2'')) = str ''abc-2'' \<and>
   finalSlug id 0 (Some (str ''abc'')) = str ''abc'' \<and>
   (\<exists>d0 d1 d2.
      saveSummary Map.empty (str ''2026-02-04'') [] (str ''abc-2'') [] =
        Some (str ''2026-02-04-reflector-abc-2.md'', d0) \<and>
      saveSummary d0 (str ''2026-02-04'') [] (str ''abc'') [] =
        Some (str ''2026-02-04-reflector-abc.md'', d1) \<and>
      saveSummary d1 (str ''2026-02-04'') [] (str ''abc'') [] =
        Some (str ''2026-02-04-reflector-abc-3.md'', d2)) \<and>
   str ''2026-02-04-reflector-abc-3.md'' \<noteq> str ''2026-02-04-reflector-abc-2.md''"
proof -
  let ?D = "str ''2026-02-04''" and ?S = "str ''abc''"
  let ?d0 = "[baseName ?D (str ''abc-2'') \<mapsto> document ?D [] (str ''abc-2'') []]"
  let ?d1 = "?d0(baseName ?D ?S \<mapsto> document ?D [] ?S [])"
  let ?d2 = "?d1(altName ?D ?S 3 \<mapsto> document ?D [] ?S [])"
  have e: "baseName ?D (str ''abc-2'') = altName ?D ?S 2" by (simp only: names_abc)
  have s1: "finalSlug id 0 (Some (str ''abc-2'')) = str ''abc-2''"
    by (simp add: finalSlug_def cleanSlug_def str_def trim_def trimStart_def trimEnd_def
        isWhiteSpace_def toLowerCase_def isAscii_def lowerUnit_def replaceOutside_def slugUnit_def
        trimHyphens_def)
  have s2: "finalSlug id 0 (Some (str ''abc'')) = str ''abc''"
    by (simp add: finalSlug_def cleanSlug_def str_def trim_def trimStart_def trimEnd_def
        isWhiteSpace_def toLowerCase_def isAscii_def lowerUnit_def replaceOutside_def slugUnit_def
        trimHyphens_def)
  have "finalPath Map.empty ?D (str ''abc-2'') = Some (baseName ?D (str ''abc-2''))"
    by (intro finalPath_base) simp
  then have w0: "saveSummary Map.empty ?D [] (str ''abc-2'') [] = Some (baseName ?D (str ''abc-2''), ?d0)"
    by (rule saveSummary_path)
  have "finalPath ?d0 ?D ?S = Some (baseName ?D ?S)"
    by (intro finalPath_base) (simp add: e base_ne_alt)
  then have w1: "saveSummary ?d0 ?D [] ?S [] = Some (baseName ?D ?S, ?d1)"
    by (rule saveSummary_path)
  have "finalPath ?d1 ?D ?S = Some (altName ?D ?S 3)"
    by (intro finalPath_3) (simp_all add: e alt_ne_base base_ne_alt alt_eq_iff)
  then have w2: "saveSummary ?d1 ?D [] ?S [] = Some (altName ?D ?S 3, ?d2)"
    by (rule saveSummary_path)
  from w0 w1 w2 have "\<exists>d0 d1 d2.
      saveSummary Map.empty ?D [] (str ''abc-2'') [] = Some (baseName ?D (str ''abc-2''), d0) \<and>
      saveSummary d0 ?D [] ?S [] = Some (baseName ?D ?S, d1) \<and>
      saveSummary d1 ?D [] ?S [] = Some (altName ?D ?S 3, d2)" by blast
  then have 3: "\<exists>d0 d1 d2.
      saveSummary Map.empty ?D [] (str ''abc-2'') [] = Some (str ''2026-02-04-reflector-abc-2.md'', d0) \<and>
      saveSummary d0 ?D [] ?S [] = Some (str ''2026-02-04-reflector-abc.md'', d1) \<and>
      saveSummary d1 ?D [] ?S [] = Some (str ''2026-02-04-reflector-abc-3.md'', d2)"
    by (simp only: names_abc)
  have 4: "str ''2026-02-04-reflector-abc-3.md'' \<noteq> str ''2026-02-04-reflector-abc-2.md''"
    by (simp add: str_def)
  from s1 conjI[OF s2 conjI[OF 3 4]] show ?thesis by (rule conjI)
qed

end
